theory Spec2Isabelle
  imports Complex_Main "HOL-Library.Word" "HOL-Library.Multiset" "HOL-Library.Sublist"
begin

section \<open>TreeCat: training and serving of a tree of categorical mixtures\<close>

text \<open>
  A shallow embedding of \<^verbatim>\<open>treecat/training.py\<close> and \<^verbatim>\<open>treecat/serving.py\<close>.
  NumPy's \<^verbatim>\<open>int8\<close> and \<^verbatim>\<open>int32\<close> arrays are lists of \<open>8 word\<close> and \<open>32 word\<close>;
  the \<^verbatim>\<open>float32\<close> and \<^verbatim>\<open>float64\<close> arrays of the probability computations are
  modelled by \<open>real\<close> (exact arithmetic, no rounding, no infinities); the counter of the
  annealing schedule, whose rounding decides whether the schedule stops, is an IEEE 754
  double; Python's unbounded integers are \<open>int\<close>. What the two files
  import from \<^verbatim>\<open>treecat.structure\<close>, \<^verbatim>\<open>treecat.util\<close> and NumPy's random generator
  (the tree structure, the propagation schedule, the categorical and the multinomial draw,
  the shuffle) is a parameter of the function that calls it; a random draw takes the state
  of the generator and returns the new one.

  A method that changes its object returns the object next to its result; an exception is
  a result \<open>Inl\<close> of type \<open>error\<close>. The assertions of the source and the errors that its
  own arithmetic and control flow raise are modelled. An index outside an array is not:
  the embedding is of calls whose row ids, vertices and cluster ids lie within the arrays,
  whose shapes are fixed by \<^verbatim>\<open>__init__\<close> and by the tree.
\<close>

subsection \<open>Errors\<close>

datatype error = AssertionError | ValueError | IndexError | ZeroDivisionError | OverflowError

subsection \<open>Python floats\<close>

text \<open>
  A Python float is an IEEE 754 double: a finite value, one of the two infinities, or
  not-a-number. A finite double is \<open>Finite x\<close> for a real \<open>x\<close> of the form
  \<open>m * 2 powi e\<close> with \<open>\<bar>m\<bar> < 2 ^ 53\<close> and \<open>- 1074 \<le> e \<le> 971\<close>. The two zeros are one
  value \<open>Finite 0\<close>: they compare equal, and nothing below divides by zero or reads
  the sign of a zero. \<open>Finite x\<close> for any other real \<open>x\<close> stands for no double; the
  operations below return doubles.

  \<open>round64\<close> is the rounding of an exact result to the nearest double, ties to the even
  significand, as every operation of the format applies it. \<open>ulp_search (- 1074) \<bar>x\<bar>\<close>
  finds the exponent \<open>e\<close> of the spacing of the doubles around \<open>x\<close>: the least
  \<open>e \<ge> - 1074\<close> with \<open>\<bar>x\<bar> < 2 powi (e + 53)\<close>. The quotient \<open>x / 2 powi e\<close> is rounded to
  a whole number, halves to the even neighbour, and a result of magnitude \<open>2 powi 1024\<close>
  or more is an infinity.
\<close>

datatype float64 = Finite real | PosInf | NegInf | NaN

function ulp_search :: "int \<Rightarrow> real \<Rightarrow> int" where
  "ulp_search e a = (if 971 < e \<or> a < 2 powi (e + 53) then e else ulp_search (e + 1) a)"
  by pat_completeness auto
termination by (relation "measure (\<lambda>(e, a). nat (972 - e))") auto

declare ulp_search.simps [simp del]

definition round_half_even :: "real \<Rightarrow> int" where
  "round_half_even y =
     (let f = \<lfloor>y\<rfloor>; d = y - of_int f
      in if d < 1/2 then f else if 1/2 < d then f + 1 else if even f then f else f + 1)"

definition round64 :: "real \<Rightarrow> float64" where
  "round64 x =
     (let e = ulp_search (- 1074) \<bar>x\<bar>;
          y = of_int (round_half_even (x / 2 powi e)) * 2 powi e
      in if 2 powi 1024 \<le> y then PosInf
         else if y \<le> - (2 powi 1024) then NegInf
         else Finite y)"

text \<open>
  The operations \<^verbatim>\<open>+\<close>, \<^verbatim>\<open>-\<close>, \<^verbatim>\<open>*\<close> and the test \<^verbatim>\<open>>= 0.0\<close>. On finite operands
  the result is the rounded exact result; the other clauses are the rules of the format
  for infinities and not-a-number (the clauses of each function are read in order).
\<close>

fun float_add :: "float64 \<Rightarrow> float64 \<Rightarrow> float64" where
  "float_add (Finite x) (Finite y) = round64 (x + y)"
| "float_add NaN b = NaN"
| "float_add a NaN = NaN"
| "float_add PosInf NegInf = NaN"
| "float_add NegInf PosInf = NaN"
| "float_add PosInf b = PosInf"
| "float_add NegInf b = NegInf"
| "float_add a PosInf = PosInf"
| "float_add a NegInf = NegInf"

fun float_sub :: "float64 \<Rightarrow> float64 \<Rightarrow> float64" where
  "float_sub (Finite x) (Finite y) = round64 (x - y)"
| "float_sub NaN b = NaN"
| "float_sub a NaN = NaN"
| "float_sub PosInf PosInf = NaN"
| "float_sub NegInf NegInf = NaN"
| "float_sub PosInf b = PosInf"
| "float_sub NegInf b = NegInf"
| "float_sub a PosInf = NegInf"
| "float_sub a NegInf = PosInf"

fun float_sign :: "float64 \<Rightarrow> int" where
  "float_sign (Finite x) = (if x < 0 then - 1 else if x = 0 then 0 else 1)"
| "float_sign PosInf = 1"
| "float_sign NegInf = - 1"
| "float_sign NaN = 0"

fun float_mul :: "float64 \<Rightarrow> float64 \<Rightarrow> float64" where
  "float_mul (Finite x) (Finite y) = round64 (x * y)"
| "float_mul NaN b = NaN"
| "float_mul a NaN = NaN"
| "float_mul a b =
     (if float_sign a * float_sign b = 0 then NaN
      else if 0 < float_sign a * float_sign b then PosInf else NegInf)"

fun float_ge_zero :: "float64 \<Rightarrow> bool" where
  "float_ge_zero (Finite x) = (0 \<le> x)"
| "float_ge_zero PosInf = True"
| "float_ge_zero NegInf = False"
| "float_ge_zero NaN = False"

text \<open>
  A number held in the configuration is a Python int or a Python float. \<open>py_float\<close> is
  \<^verbatim>\<open>float(x)\<close>, which is also how an int operand of a float operation is converted: a
  float is returned as it is, an int is rounded to the nearest double, and an int too
  large for a double raises \<^verbatim>\<open>OverflowError\<close>.
\<close>

datatype pynum = PyInt int | PyFloat float64

fun py_float :: "pynum \<Rightarrow> error + float64" where
  "py_float (PyFloat f) = Inr f"
| "py_float (PyInt n) =
     (case round64 (of_int n) of Finite x \<Rightarrow> Inr (Finite x) | _ \<Rightarrow> Inl OverflowError)"

subsection \<open>Configuration\<close>

record config =
  model_num_clusters :: nat
  learning_annealing_epochs :: pynum
  learning_annealing_init_rows :: pynum
  learning_sample_tree_steps :: int

subsection \<open>The annealing schedule (\<^verbatim>\<open>get_annealing_schedule\<close>)\<close>

datatype action = add_row_action nat | remove_row_action nat | sample_tree_action

text \<open>
  The local variables of the generator. \<open>row_to_add\<close> and \<open>row_to_remove\<close> are the two
  \<^verbatim>\<open>itertools.cycle(row_ids)\<close> iterators, each held as the number of items it has
  produced so far. The counter \<open>state\<close> is a float; the two tallies are ints.
\<close>

record anneal =
  state :: float64
  num_fresh :: int
  num_stale :: int
  row_to_add :: nat
  row_to_remove :: nat

text \<open>\<^verbatim>\<open>next(itertools.cycle(row_ids))\<close> for a cursor that has already produced \<open>i\<close> items.\<close>

definition cycle_next :: "nat list \<Rightarrow> nat \<Rightarrow> nat" where
  "cycle_next row_ids i = row_ids ! (i mod length row_ids)"

text \<open>The first \<^verbatim>\<open>if\<close>/\<^verbatim>\<open>else\<close> of the loop body: one add or one remove.\<close>

definition anneal_move :: "nat list \<Rightarrow> float64 \<Rightarrow> float64 \<Rightarrow> anneal \<Rightarrow> action \<times> anneal" where
  "anneal_move row_ids add_rate remove_rate s =
     (if float_ge_zero (state s)
      then (add_row_action (cycle_next row_ids (row_to_add s)),
            s\<lparr>state := float_sub (state s) remove_rate,
              num_fresh := num_fresh s + 1,
              row_to_add := row_to_add s + 1\<rparr>)
      else (remove_row_action (cycle_next row_ids (row_to_remove s)),
            s\<lparr>state := float_add (state s) add_rate,
              num_stale := num_stale s - 1,
              row_to_remove := row_to_remove s + 1\<rparr>))"

text \<open>The second \<^verbatim>\<open>if\<close> of the loop body: the tree is sampled after each batch.\<close>

definition anneal_batch :: "bool \<Rightarrow> anneal \<Rightarrow> action list \<times> anneal" where
  "anneal_batch sampling_tree s =
     (if sampling_tree \<and> num_stale s = 0 \<and> num_fresh s > 0
      then ([sample_tree_action], s\<lparr>num_stale := num_fresh s, num_fresh := 0\<rparr>)
      else ([], s))"

definition anneal_body ::
  "nat list \<Rightarrow> float64 \<Rightarrow> float64 \<Rightarrow> bool \<Rightarrow> anneal \<Rightarrow> action list \<times> anneal" where
  "anneal_body row_ids add_rate remove_rate sampling_tree s =
     (case anneal_move row_ids add_rate remove_rate s of
        (a, s1) \<Rightarrow> (case anneal_batch sampling_tree s1 of
          (b, s2) \<Rightarrow> (a # b, s2)))"

text \<open>
  The \<^verbatim>\<open>while num_fresh + num_stale != num_rows\<close> loop, with the yielded pairs collected
  in order. The loop has no bound of its own, so the result is an option: \<open>None\<close> is a
  generator that never stops.
\<close>

partial_function (option) anneal_loop ::
  "nat list \<Rightarrow> nat \<Rightarrow> float64 \<Rightarrow> float64 \<Rightarrow> bool \<Rightarrow> anneal \<Rightarrow> action list option" where
  "anneal_loop row_ids num_rows add_rate remove_rate sampling_tree s =
     (if num_fresh s + num_stale s = int num_rows then Some []
      else (case anneal_body row_ids add_rate remove_rate sampling_tree s of
        (acts, s') \<Rightarrow>
          Option.bind (anneal_loop row_ids num_rows add_rate remove_rate sampling_tree s')
            (\<lambda>rest. Some (acts @ rest))))"

declare anneal_loop.simps [code]

text \<open>
  The generator. \<open>shuffle\<close> stands for \<^verbatim>\<open>np.random.shuffle\<close>, applied to
  \<^verbatim>\<open>list(range(num_rows))\<close>. The statements before the loop can raise: the result is
  \<open>Some (Inl err)\<close> for a generator that raises, \<open>Some (Inr acts)\<close> for one that yields
  \<open>acts\<close> and stops, \<open>None\<close> for one that never stops.
  \<^verbatim>\<open>
  epochs = float(config['learning_annealing_epochs'])
  add_rate = epochs
  remove_rate = epochs - 1.0
  state = epochs * config['learning_annealing_init_rows']
  \<close>
\<close>

definition get_annealing_schedule ::
  "(nat list \<Rightarrow> nat list) \<Rightarrow> nat \<Rightarrow> config \<Rightarrow> (error + action list) option" where
  "get_annealing_schedule shuffle num_rows cfg =
     (let row_ids = shuffle [0..<num_rows]
      in case py_float (learning_annealing_epochs cfg) of
           Inl err \<Rightarrow> Some (Inl err)
         | Inr epochs \<Rightarrow>
             (let add_rate = epochs;
                  remove_rate = float_sub epochs (Finite 1)
              in case py_float (learning_annealing_init_rows cfg) of
                   Inl err \<Rightarrow> Some (Inl err)
                 | Inr init_rows \<Rightarrow>
                     (let state0 = float_mul epochs init_rows;
                          sampling_tree = (learning_sample_tree_steps cfg > 0)
                      in map_option Inr
                           (anneal_loop row_ids num_rows add_rate remove_rate sampling_tree
                              \<lparr>state = state0, num_fresh = 0, num_stale = 0,
                               row_to_add = 0, row_to_remove = 0\<rparr>))))"

text \<open>The rows named by the emitted add and remove actions, in order, and their numbers.\<close>

fun added_rows :: "action list \<Rightarrow> nat list" where
  "added_rows [] = []"
| "added_rows (add_row_action r # xs) = r # added_rows xs"
| "added_rows (x # xs) = added_rows xs"

fun removed_rows :: "action list \<Rightarrow> nat list" where
  "removed_rows [] = []"
| "removed_rows (remove_row_action r # xs) = r # removed_rows xs"
| "removed_rows (x # xs) = removed_rows xs"

fun num_adds :: "action list \<Rightarrow> nat" where
  "num_adds [] = 0"
| "num_adds (add_row_action r # xs) = Suc (num_adds xs)"
| "num_adds (x # xs) = num_adds xs"

fun num_removes :: "action list \<Rightarrow> nat" where
  "num_removes [] = 0"
| "num_removes (remove_row_action r # xs) = Suc (num_removes xs)"
| "num_removes (x # xs) = num_removes xs"

text \<open>
  How \<^verbatim>\<open>train\<close> consumes the stream, as far as the set of assigned rows goes:
  \<^verbatim>\<open>add_row\<close> asserts that the row is not assigned and adds it, \<^verbatim>\<open>remove_row\<close> asserts
  that it is assigned and removes it, \<^verbatim>\<open>sample_tree\<close> leaves the set alone.
\<close>

fun replay_assigned :: "action list \<Rightarrow> nat set \<Rightarrow> error + nat set" where
  "replay_assigned [] A = Inr A"
| "replay_assigned (add_row_action r # xs) A =
     (if r \<in> A then Inl AssertionError else replay_assigned xs (insert r A))"
| "replay_assigned (remove_row_action r # xs) A =
     (if r \<notin> A then Inl AssertionError else replay_assigned xs (A - {r}))"
| "replay_assigned (sample_tree_action # xs) A = replay_assigned xs A"

subsection \<open>Arrays\<close>

text \<open>
  A one-dimensional float array is a list of reals, a two-dimensional one a list of rows.
  The helpers below are the NumPy operations the two files use: elementwise product and
  quotient of vectors of one length, \<^verbatim>\<open>sum(axis=0)\<close> of a table of shape \<open>(K, M)\<close>
  (the width \<open>M\<close> is given, so that a table without rows sums to \<open>M\<close> zeros, as in
  NumPy), \<^verbatim>\<open>sum(axis=1)\<close>, \<^verbatim>\<open>np.dot\<close> of a matrix and a vector, and
  \<^verbatim>\<open>message /= message.sum()\<close>.
\<close>

type_synonym vec = "real list"
type_synonym mat = "real list list"

definition vmul :: "vec \<Rightarrow> vec \<Rightarrow> vec" where
  "vmul a b = map2 (*) a b"

definition vdiv :: "vec \<Rightarrow> vec \<Rightarrow> vec" where
  "vdiv a b = map2 (/) a b"

definition sum_axis0 :: "nat \<Rightarrow> mat \<Rightarrow> vec" where
  "sum_axis0 M tbl = map (\<lambda>m. sum_list (map (\<lambda>row. row ! m) tbl)) [0..<M]"

definition sum_axis1 :: "mat \<Rightarrow> vec" where
  "sum_axis1 tbl = map sum_list tbl"

definition dot :: "mat \<Rightarrow> vec \<Rightarrow> vec" where
  "dot t x = map (\<lambda>row. sum_list (map2 (*) row x)) t"

definition normalize :: "vec \<Rightarrow> vec" where
  "normalize message = map (\<lambda>x. x / sum_list message) message"

text \<open>A map that also sees the position, for updates of selected cells of an array.\<close>

definition imap :: "(nat \<Rightarrow> 'a \<Rightarrow> 'b) \<Rightarrow> 'a list \<Rightarrow> 'b list" where
  "imap f xs = map (\<lambda>(i, x). f i x) (enumerate 0 xs)"

text \<open>
  \<^verbatim>\<open>astype(np.float32)\<close> of an \<^verbatim>\<open>int32\<close> count, and an \<^verbatim>\<open>int8\<close> cluster id used as
  an index (cluster ids are drawn from \<open>range(M)\<close> with \<open>M \<le> 128\<close>, so they are not
  negative).
\<close>

definition astype_float :: "32 word \<Rightarrow> real" where
  "astype_float x = real_of_int (sint x)"

definition index8 :: "8 word \<Rightarrow> nat" where
  "index8 a = nat (sint a)"

subsection \<open>Evidence fold-in, shared by \<^verbatim>\<open>add_row\<close> and \<^verbatim>\<open>_propagate\<close>\<close>

text \<open>
  \<^verbatim>\<open>
  for c, count in enumerate(data[v]):
      for _ in range(count):
          message *= obs_lat[c, :] / lat
          obs_lat[c, :] += 1.0
          lat += 1.0
  \<close>
  The state of the loop is the triple \<open>(message, obs_lat, lat)\<close>; \<open>fold_unit c\<close> is one
  run of the inner body for category \<open>c\<close>, \<open>fold_evidence\<close> the two nested loops.
  \<open>evidence_units\<close> lists the categories of the units in the order the loops visit them.
\<close>

type_synonym evidence = "vec \<times> mat \<times> vec"

definition fold_unit :: "nat \<Rightarrow> evidence \<Rightarrow> evidence" where
  "fold_unit c = (\<lambda>(message, obs_lat, lat).
     (vmul message (vdiv (obs_lat ! c) lat),
      obs_lat[c := map (\<lambda>x. x + 1) (obs_lat ! c)],
      map (\<lambda>x. x + 1) lat))"

definition fold_evidence :: "int list \<Rightarrow> evidence \<Rightarrow> evidence" where
  "fold_evidence row = fold (\<lambda>(c, count). fold_unit c ^^ nat count) (enumerate 0 row)"

definition evidence_units :: "int list \<Rightarrow> nat list" where
  "evidence_units row = concat (map (\<lambda>(c, count). replicate (nat count) c) (enumerate 0 row))"

subsection \<open>The log-likelihood of a Dirichlet-categorical (\<^verbatim>\<open>logprob_dc\<close>)\<close>

text \<open>
  \<^verbatim>\<open>scipy.special.gammaln\<close> is the logarithm of the absolute value of the Gamma function,
  here given by Gauss's limit. No result below depends on its values.
\<close>

definition Gamma_seq :: "real \<Rightarrow> nat \<Rightarrow> real" where
  "Gamma_seq x n = fact n * real n powr x / (\<Prod>k = 0..n. x + real k)"

definition gammaln :: "real \<Rightarrow> real" where
  "gammaln x = ln \<bar>lim (Gamma_seq x)\<bar>"

definition logprob_dc :: "real list \<Rightarrow> real" where
  "logprob_dc counts_plus_prior = sum_list (map gammaln counts_plus_prior)"

subsection \<open>The trainer (\<^verbatim>\<open>TreeCatTrainer\<close>)\<close>

text \<open>
  Modelled from the spec: the class \<^verbatim>\<open>TreeStructure\<close> of \<^verbatim>\<open>treecat.structure\<close>, as far as
  the two files read it. It "exposes vertex count, the spanning-tree edge grid (triples of
  edge-id, lower-vertex, higher-vertex; lower < higher required), an adjacent-pair to
  edge-id lookup, the complete-graph candidate-edge enumeration"; the grids are held as
  lists of their columns \<open>(e, v1, v2)\<close>, and \<^verbatim>\<open>vertices\<close> is the index array that
  \<^verbatim>\<open>_update_tensors\<close> pairs with the assignments. A propagation schedule is an "ordered
  sequence of (vertex, parent-or-none, children)".
\<close>

record tree_structure =
  num_vertices :: nat
  vertices :: "nat list"
  tree_grid :: "(nat \<times> nat \<times> nat) list"
  complete_grid :: "(nat \<times> nat \<times> nat) list"
  find_tree_edge :: "nat \<Rightarrow> nat \<Rightarrow> nat"

type_synonym propagation_schedule = "(nat \<times> nat option \<times> nat list) list"

text \<open>
  The three \<^verbatim>\<open>int32\<close> arrays: \<open>feat_ss ! v\<close> has shape \<open>(K\<^sub>v, M)\<close>, \<open>vert_ss\<close> has shape
  \<open>(V, M)\<close>, \<open>edge_ss\<close> has shape \<open>(E, M, M)\<close>. The trainer holds them as fields of its own;
  its \<^verbatim>\<open>suffstats\<close> property returns the three of them.
\<close>

record suffstats =
  feat_ss :: "32 word list list list"
  vert_ss :: "32 word list list"
  edge_ss :: "32 word list list list"

text \<open>
  \<open>data ! v ! row ! c\<close> is the \<^verbatim>\<open>int8\<close> count of category \<open>c\<close> of feature \<open>v\<close> in a row;
  \<open>assignments ! row ! v\<close> is the \<^verbatim>\<open>int8\<close> cluster id of the cell.
\<close>

record trainer = suffstats +
  data :: "8 word list list list"
  config :: config
  assigned_rows :: "nat set"
  assignments :: "8 word list list"
  tree :: tree_structure
  schedule :: propagation_schedule
  VEKM :: "nat \<times> nat \<times> nat \<times> nat"
  vert_prior :: real
  edge_prior :: real
  feat_prior :: real

definition get_suffstats :: "trainer \<Rightarrow> suffstats" where
  "get_suffstats s = \<lparr>feat_ss = feat_ss s, vert_ss = vert_ss s, edge_ss = edge_ss s\<rparr>"

text \<open>
  \<^verbatim>\<open>__init__\<close>. \<open>TreeStructure\<close> and \<open>make_propagation_schedule\<close> are the two collaborators
  it calls. The input is a list of columns, each a list of rows of integer counts;
  \<^verbatim>\<open>np.asarray(column, np.int8)\<close> keeps the low eight bits of every count. The width
  \<^verbatim>\<open>column.shape[1]\<close> is read off the first row (a column without rows has width 0 here).
  The errors, in the order of the source: \<^verbatim>\<open>data[0]\<close> of an empty list, the two
  assertions, \<^verbatim>\<open>0.5 / M\<close> for \<open>M = 0\<close>, and \<^verbatim>\<open>np.zeros([E, M, M])\<close> for \<open>E = -1\<close>.
\<close>

definition column_width :: "'a list list \<Rightarrow> nat" where
  "column_width column = (case column of [] \<Rightarrow> 0 | row # rest \<Rightarrow> length row)"

definition TreeCatTrainer_init ::
  "(nat \<Rightarrow> tree_structure) \<Rightarrow> ((nat \<times> nat \<times> nat) list \<Rightarrow> propagation_schedule) \<Rightarrow>
   int list list list \<Rightarrow> config \<Rightarrow> error + trainer" where
  "TreeCatTrainer_init TreeStructure make_propagation_schedule data0 cfg =
     (if data0 = [] then Inl IndexError
      else
        let data1 = map (map (map (word_of_int :: int \<Rightarrow> 8 word))) data0;
            num_features = length data1;
            num_rows = length (data1 ! 0)
        in if \<not> list_all (\<lambda>column. length column = num_rows) data1 then Inl AssertionError
           else
             let t = TreeStructure num_features;
                 V = num_vertices t;
                 E = V - 1;
                 K = V * (V - 1) div 2;
                 M = model_num_clusters cfg
             in if \<not> M \<le> 128 then Inl AssertionError
                else if M = 0 then Inl ZeroDivisionError
                else if V = 0 then Inl ValueError
                else Inr \<lparr>feat_ss = map (\<lambda>column. replicate (column_width column) (replicate M 0)) data1,
                          vert_ss = replicate V (replicate M 0),
                          edge_ss = replicate E (replicate M (replicate M 0)),
                          data = data1,
                          config = cfg,
                          assigned_rows = {},
                          assignments = replicate num_rows (replicate num_features 0),
                          tree = t,
                          schedule = make_propagation_schedule (tree_grid t),
                          VEKM = (V, E, K, M),
                          vert_prior = 0.5,
                          edge_prior = 0.5 / real M,
                          feat_prior = 0.5 / real M\<rparr>)"

text \<open>
  \<^verbatim>\<open>_update_tensors\<close>. An indexed \<^verbatim>\<open>a[I, J] += d\<close> reads the selected cells, adds \<open>d\<close>
  and stores the sums, so that every selected cell receives \<open>d\<close> once however often the
  index arrays name it: \<open>add_at2\<close> and \<open>add_at3\<close>. For the feature tallies,
  \<^verbatim>\<open>diff * column[row_id, :]\<close> is a product of \<^verbatim>\<open>int8\<close> values (it wraps at eight bits),
  which is then widened to \<^verbatim>\<open>int32\<close> and added to one column of the table: \<open>add_column\<close>.
\<close>

definition add_at2 :: "(nat \<times> nat) list \<Rightarrow> 32 word \<Rightarrow> 32 word list list \<Rightarrow> 32 word list list" where
  "add_at2 idx d a = imap (\<lambda>i. imap (\<lambda>j x. if (i, j) \<in> set idx then x + d else x)) a"

definition add_at3 ::
  "(nat \<times> nat \<times> nat) list \<Rightarrow> 32 word \<Rightarrow> 32 word list list list \<Rightarrow> 32 word list list list" where
  "add_at3 idx d a =
     imap (\<lambda>i. imap (\<lambda>j. imap (\<lambda>k x. if (i, j, k) \<in> set idx then x + d else x))) a"

definition add_column ::
  "nat \<Rightarrow> 8 word \<Rightarrow> 8 word list \<Rightarrow> 32 word list list \<Rightarrow> 32 word list list" where
  "add_column m diff counts tbl =
     imap (\<lambda>c row. row[m := row ! m + scast (diff * counts ! c)]) tbl"

definition update_tensors :: "nat \<Rightarrow> int \<Rightarrow> trainer \<Rightarrow> trainer" where
  "update_tensors row_id diff s =
     (let a = map index8 (assignments s ! row_id);
          t = tree s
      in s\<lparr>vert_ss := add_at2 (zip (vertices t) a) (word_of_int diff) (vert_ss s),
           edge_ss := add_at3 (map (\<lambda>(e, v1, v2). (e, a ! v1, a ! v2)) (tree_grid t))
                        (word_of_int diff) (edge_ss s),
           feat_ss := fold (\<lambda>(v, column) fs.
                          fs[v := add_column (a ! v) (word_of_int diff) (column ! row_id) (fs ! v)])
                        (enumerate 0 (data s)) (feat_ss s)\<rparr>)"

text \<open>
  \<^verbatim>\<open>add_row\<close>. \<open>oriented\<close> is the edge table of the pair \<open>(v, w)\<close>, transposed when
  \<open>v > w\<close>. \<open>trainer_child\<close> is the body of \<^verbatim>\<open>for child in children\<close>, \<open>trainer_upward\<close>
  the body of the loop over the reversed schedule, \<open>trainer_downward\<close> the body of the
  loop over the schedule. \<open>sample_from_probs\<close> is the categorical draw of
  \<^verbatim>\<open>treecat.util\<close>; it reads and advances the state \<open>rng\<close> of the random generator.
\<close>

definition oriented :: "mat list \<Rightarrow> tree_structure \<Rightarrow> nat \<Rightarrow> nat \<Rightarrow> mat" where
  "oriented edge_probs t v w =
     (let e = find_tree_edge t v w;
          trans = edge_probs ! e
      in if v > w then transpose trans else trans)"

definition trainer_child :: "tree_structure \<Rightarrow> mat list \<Rightarrow> mat \<Rightarrow> nat \<Rightarrow> nat \<Rightarrow> mat \<Rightarrow> mat" where
  "trainer_child t edge_probs vert_probs v child messages =
     (let trans = oriented edge_probs t v child;
          message = vmul (messages ! v) (dot trans (vdiv (messages ! child) (vert_probs ! child)));
          message = vdiv message (vert_probs ! v);
          message = normalize message
      in messages[v := message])"

definition trainer_upward ::
  "trainer \<Rightarrow> nat \<Rightarrow> mat list \<Rightarrow> mat \<Rightarrow> nat \<times> nat option \<times> nat list \<Rightarrow> mat \<Rightarrow> mat" where
  "trainer_upward s row_id edge_probs vert_probs = (\<lambda>(v, parent, children) messages.
     (let (V, E, K, M) = VEKM s;
          obs_lat = map (map (\<lambda>x. astype_float x + feat_prior s)) (feat_ss s ! v);
          lat = sum_axis0 M obs_lat;
          (message, obs_lat', lat') =
             fold_evidence (map sint (data s ! v ! row_id)) (messages ! v, obs_lat, lat)
      in fold (trainer_child (tree s) edge_probs vert_probs v) children (messages[v := message])))"

definition trainer_downward ::
  "('r \<Rightarrow> vec \<Rightarrow> nat \<times> 'r) \<Rightarrow> tree_structure \<Rightarrow> mat list \<Rightarrow> mat \<Rightarrow>
   nat \<times> nat option \<times> nat list \<Rightarrow> mat \<times> 8 word list \<times> 'r \<Rightarrow> mat \<times> 8 word list \<times> 'r" where
  "trainer_downward sample_from_probs t edge_probs vert_probs =
     (\<lambda>(v, parent, children) (messages, assignments_row, rng).
       (let message = messages ! v;
            message = (case parent of
                None \<Rightarrow> message
              | Some p \<Rightarrow>
                  vdiv (vmul message (oriented edge_probs t p v ! index8 (assignments_row ! p)))
                    (vert_probs ! v));
            message = normalize message;
            (k, rng') = sample_from_probs rng message
        in (messages[v := message], assignments_row[v := of_nat k], rng')))"

definition add_row ::
  "('r \<Rightarrow> vec \<Rightarrow> nat \<times> 'r) \<Rightarrow> nat \<Rightarrow> trainer \<times> 'r \<Rightarrow> (error + unit) \<times> trainer \<times> 'r" where
  "add_row sample_from_probs row_id = (\<lambda>(s, rng).
     if row_id \<in> assigned_rows s then (Inl AssertionError, s, rng)
     else
       let edge_probs = map (map (map (\<lambda>x. astype_float x + edge_prior s))) (edge_ss s);
           vert_probs = map (map (\<lambda>x. astype_float x + vert_prior s)) (vert_ss s);
           messages = fold (trainer_upward s row_id edge_probs vert_probs) (rev (schedule s)) vert_probs;
           (messages', assignments_row, rng') =
              fold (trainer_downward sample_from_probs (tree s) edge_probs vert_probs) (schedule s)
                (messages, assignments s ! row_id, rng);
           s1 = s\<lparr>assignments := (assignments s)[row_id := assignments_row],
                  assigned_rows := insert row_id (assigned_rows s)\<rparr>
       in (Inr (), update_tensors row_id 1 s1, rng'))"

definition remove_row :: "nat \<Rightarrow> trainer \<Rightarrow> (error + unit) \<times> trainer" where
  "remove_row row_id s =
     (if row_id \<notin> assigned_rows s then (Inl AssertionError, s)
      else (Inr (), update_tensors row_id (- 1) (s\<lparr>assigned_rows := assigned_rows s - {row_id}\<rparr>)))"

text \<open>
  \<^verbatim>\<open>count_pairs\<close>: the \<open>M \<times> M\<close> table of \<^verbatim>\<open>np.bincount\<close> over
  \<^verbatim>\<open>assignments[:, v1] * M + assignments[:, v2]\<close>.
\<close>

definition count_pairs :: "8 word list list \<Rightarrow> nat \<Rightarrow> nat \<Rightarrow> nat \<Rightarrow> error + int list list" where
  "count_pairs rows v1 v2 M =
     (if v1 = v2 then Inl AssertionError
      else Inr (map (\<lambda>i. map (\<lambda>j.
             int (length (filter (\<lambda>row. index8 (row ! v1) * M + index8 (row ! v2) = i * M + j) rows)))
           [0..<M]) [0..<M]))"

definition vertex_logits :: "trainer \<Rightarrow> real list" where
  "vertex_logits s =
     map (\<lambda>row. logprob_dc (map (\<lambda>x. real_of_int (sint x) + vert_prior s) row)) (vert_ss s)"

text \<open>
  The first half of \<^verbatim>\<open>sample_tree\<close>, up to the call of the tree resampler: the array
  \<^verbatim>\<open>edge_logits\<close> that is handed over.
  \<^verbatim>\<open>
  edge_logits = np.zeros([K], np.float32)
  for k, v1, v2 in self.tree.tree_grid.T:
      counts = count_pairs(assignments, v1, v2, M)
      edge_logits[k] = (logprob_dc(counts + self._edge_prior) -
                        vertex_logits[v1] - vertex_logits[v2])
  \<close>
\<close>

fun edge_logits_loop ::
  "8 word list list \<Rightarrow> nat \<Rightarrow> real \<Rightarrow> real list \<Rightarrow> (nat \<times> nat \<times> nat) list \<Rightarrow> real list \<Rightarrow>
   error + real list" where
  "edge_logits_loop rows M prior vl [] edge_logits = Inr edge_logits"
| "edge_logits_loop rows M prior vl ((k, v1, v2) # grid) edge_logits =
     (case count_pairs rows v1 v2 M of
        Inl err \<Rightarrow> Inl err
      | Inr counts \<Rightarrow>
          if \<not> (v1 < length vl \<and> v2 < length vl \<and> k < length edge_logits) then Inl IndexError
          else edge_logits_loop rows M prior vl grid
                 (edge_logits[k := logprob_dc (map (\<lambda>x. real_of_int x + prior) (concat counts))
                                    - vl ! v1 - vl ! v2]))"

definition sample_tree_edge_logits :: "trainer \<Rightarrow> error + real list" where
  "sample_tree_edge_logits s =
     (let (V, E, K, M) = VEKM s;
          rows = map (\<lambda>r. assignments s ! r) (sorted_list_of_set (assigned_rows s))
      in edge_logits_loop rows M (edge_prior s) (vertex_logits s) (tree_grid (tree s))
           (replicate K 0))"

text \<open>\<^verbatim>\<open>TreeCatTrainer.logprob\<close>.\<close>

definition logprob :: "trainer \<Rightarrow> error + real" where
  "logprob s =
     (if int (card (assigned_rows s)) \<noteq> int (length (assignments s)) then Inl AssertionError
      else
        let (V, E, K, M) = VEKM s;
            vl = vertex_logits s;
            lp = sum_list vl;
            lp = fold (\<lambda>(e, v1, v2) lp.
                    lp + (logprob_dc (map (\<lambda>x. real_of_int (sint x) + edge_prior s) (concat (edge_ss s ! e)))
                          - vl ! v1 - vl ! v2))
                  (tree_grid (tree s)) lp;
            lp = fold (\<lambda>v lp.
                    let feat_probs = map (map (\<lambda>x. real_of_int (sint x) + feat_prior s)) (feat_ss s ! v)
                    in lp + (logprob_dc (concat feat_probs) - logprob_dc (sum_axis0 M feat_probs)))
                  [0..<V] lp
        in Inr lp)"

subsection \<open>The server (\<^verbatim>\<open>make_posterior\<close>, \<^verbatim>\<open>TreeCatServer\<close>)\<close>

record posterior_tables =
  observed :: mat
  observed_latent :: "mat list"
  latent :: mat
  latent_latent :: "mat list"

text \<open>
  \<^verbatim>\<open>make_posterior\<close>. \<open>V\<close> and \<open>M\<close> are the shape of \<open>vert_ss\<close>; the checks are the
  assertions of the source, in its order (an array is a rectangular nested list), and
  \<^verbatim>\<open>0.5 / M\<close> raises for \<open>M = 0\<close>.
\<close>

definition make_posterior :: "(nat \<times> nat \<times> nat) list \<Rightarrow> suffstats \<Rightarrow> error + posterior_tables" where
  "make_posterior grid ss =
     (let V = length (vert_ss ss);
          M = column_width (vert_ss ss);
          E = int V - 1
      in if int (length grid) \<noteq> E then Inl AssertionError
         else if \<not> list_all (\<lambda>row. length row = M) (vert_ss ss) then Inl AssertionError
         else if \<not> (int (length (edge_ss ss)) = E \<and>
                    list_all (\<lambda>tbl. length tbl = M \<and> list_all (\<lambda>row. length row = M) tbl) (edge_ss ss))
           then Inl AssertionError
         else if length (feat_ss ss) \<noteq> V then Inl AssertionError
         else if \<not> list_all (list_all (\<lambda>row. length row = M)) (feat_ss ss) then Inl AssertionError
         else if M = 0 then Inl ZeroDivisionError
         else
           let vert_prior = 0.5;
               edge_prior = 0.5 / real M;
               feat_prior = 0.5 / real M;
               latent0 = map (map (\<lambda>x. vert_prior + astype_float x)) (vert_ss ss);
               latent_latent0 = map (map (map (\<lambda>x. edge_prior + astype_float x))) (edge_ss ss);
               latent1 = map (\<lambda>row. map (\<lambda>x. x / sum_list row) row) latent0;
               latent_latent1 = map (\<lambda>tbl. map (map (\<lambda>x. x / sum_list (concat tbl))) tbl) latent_latent0;
               observed_latent1 = imap (\<lambda>v tbl.
                   let ol = map (map (\<lambda>x. feat_prior + astype_float x)) tbl;
                       scale = vdiv (latent1 ! v) (sum_axis0 M ol)
                   in map (\<lambda>row. vmul row scale) ol) (feat_ss ss);
               observed1 = map sum_axis1 observed_latent1
           in Inr \<lparr>observed = observed1, observed_latent = observed_latent1,
                    latent = latent1, latent_latent = latent_latent1\<rparr>)"

record server =
  server_tree :: tree_structure
  server_config :: config
  posterior :: posterior_tables
  server_schedule :: propagation_schedule
  zero_row :: "int list list"
  VEM :: "nat \<times> nat \<times> nat"

definition TreeCatServer_init ::
  "((nat \<times> nat \<times> nat) list \<Rightarrow> propagation_schedule) \<Rightarrow> tree_structure \<Rightarrow> suffstats \<Rightarrow> config \<Rightarrow>
   error + server" where
  "TreeCatServer_init make_propagation_schedule t ss cfg =
     (case make_posterior (tree_grid t) ss of
        Inl err \<Rightarrow> Inl err
      | Inr post \<Rightarrow>
          let V = num_vertices t
          in Inr \<lparr>server_tree = t, server_config = cfg, posterior = post,
                   server_schedule = make_propagation_schedule (tree_grid t),
                   zero_row = map (map (\<lambda>x. 0)) (observed post),
                   VEM = (V, V - 1, model_num_clusters cfg)\<rparr>)"

text \<open>
  \<^verbatim>\<open>_propagate\<close>. The posterior tables are NumPy arrays held by the server, and the method
  works on them through names: \<^verbatim>\<open>messages\<close> and \<^verbatim>\<open>obs_lat\<close> are copies, while
  \<^verbatim>\<open>feat_probs\<close>, \<^verbatim>\<open>edge_probs\<close> and \<^verbatim>\<open>vert_probs\<close> are the arrays of the posterior
  themselves. The model therefore returns the server together with the result.

  \<open>server_child\<close> is the body of \<^verbatim>\<open>for child in children\<close>, \<open>server_upward\<close> the body of
  the loop over the reversed schedule, with the running \<^verbatim>\<open>logprob\<close>.
\<close>

datatype propagate_result = logprob_result real | sample_result "int list list"

definition server_child ::
  "tree_structure \<Rightarrow> mat list \<Rightarrow> mat \<Rightarrow> nat \<Rightarrow> nat \<Rightarrow> mat \<times> real \<Rightarrow> mat \<times> real" where
  "server_child t edge_probs vert_probs v child = (\<lambda>(messages, lp).
     (let trans = oriented edge_probs t v child;
          message = vmul (messages ! v) (dot trans (vdiv (messages ! child) (vert_probs ! child)));
          message = vdiv message (vert_probs ! v);
          message_sum = sum_list message;
          message = map (\<lambda>x. x / message_sum) message
      in (messages[v := message], lp + ln message_sum)))"

definition server_upward ::
  "tree_structure \<Rightarrow> mat list \<Rightarrow> mat list \<Rightarrow> mat \<Rightarrow> int list list \<Rightarrow>
   nat \<times> nat option \<times> nat list \<Rightarrow> mat \<times> real \<Rightarrow> mat \<times> real" where
  "server_upward t feat_probs edge_probs vert_probs data_row = (\<lambda>(v, parent, children) (messages, lp).
     (let obs_lat = feat_probs ! v;
          lat = sum_axis0 (length (vert_probs ! v)) obs_lat;
          (message, obs_lat', lat') = fold_evidence (data_row ! v) (messages ! v, obs_lat, lat)
      in fold (server_child t edge_probs vert_probs v) children (messages[v := message], lp)))"

text \<open>
  The body of the loop over the schedule in the \<^verbatim>\<open>'sample'\<close> branch.
  \<^verbatim>\<open>
  if counts[v]:
      probs = feat_probs[v][:, vert_sample[v]]
      probs /= probs.sum()
      feat_sample[v][:] = np.random.multinomial(counts[v], probs)
  \<close>
  Indexing with a slice and an integer gives a view: \<^verbatim>\<open>probs\<close> is column
  \<^verbatim>\<open>vert_sample[v]\<close> of the array \<^verbatim>\<open>feat_probs[v]\<close>, and the division in place is stored
  into that column. \<open>multinomial\<close> stands for \<^verbatim>\<open>np.random.multinomial\<close>.
\<close>

definition server_downward ::
  "('r \<Rightarrow> vec \<Rightarrow> nat \<times> 'r) \<Rightarrow> ('r \<Rightarrow> int \<Rightarrow> vec \<Rightarrow> int list \<times> 'r) \<Rightarrow>
   tree_structure \<Rightarrow> mat list \<Rightarrow> int list \<Rightarrow> nat \<times> nat option \<times> nat list \<Rightarrow>
   mat \<times> nat list \<times> int list list \<times> mat list \<times> 'r \<Rightarrow> mat \<times> nat list \<times> int list list \<times> mat list \<times> 'r" where
  "server_downward sample_from_probs multinomial t edge_probs counts =
     (\<lambda>(v, parent, children) (messages, vert_sample, feat_sample, feat_probs, rng).
       (let message = messages ! v;
            message = (case parent of
                None \<Rightarrow> message
              | Some p \<Rightarrow> vmul message (oriented edge_probs t p v ! (vert_sample ! p)));
            message = normalize message;
            (k, rng1) = sample_from_probs rng message;
            vert_sample1 = vert_sample[v := k];
            messages1 = messages[v := message]
        in if counts ! v \<noteq> 0
           then
             let probs = normalize (map (\<lambda>row. row ! k) (feat_probs ! v));
                 feat_probs1 = feat_probs[v := imap (\<lambda>c row. row[k := probs ! c]) (feat_probs ! v)];
                 (draw, rng2) = multinomial rng1 (counts ! v) probs
             in (messages1, vert_sample1, feat_sample[v := draw], feat_probs1, rng2)
           else (messages1, vert_sample1, feat_sample, feat_probs, rng1)))"

definition propagate ::
  "('r \<Rightarrow> vec \<Rightarrow> nat \<times> 'r) \<Rightarrow> ('r \<Rightarrow> int \<Rightarrow> vec \<Rightarrow> int list \<times> 'r) \<Rightarrow>
   string \<Rightarrow> int list list \<Rightarrow> int list \<Rightarrow> server \<times> 'r \<Rightarrow> (error + propagate_result) \<times> server \<times> 'r" where
  "propagate sample_from_probs multinomial task data_row counts = (\<lambda>(srv, rng).
     (let (V, E, M) = VEM srv;
          feat_probs = observed_latent (posterior srv);
          edge_probs = latent_latent (posterior srv);
          vert_probs = latent (posterior srv);
          (messages, lp) =
             fold (server_upward (server_tree srv) feat_probs edge_probs vert_probs data_row)
               (rev (server_schedule srv)) (vert_probs, 0)
      in if task = ''logprob'' then
           (case server_schedule srv of
              [] \<Rightarrow> (Inl IndexError, srv, rng)
            | (root_v, parent, children) # rest \<Rightarrow>
                if parent \<noteq> None then (Inl AssertionError, srv, rng)
                else (Inr (logprob_result (lp + ln (sum_list (messages ! root_v)))), srv, rng))
         else if task = ''sample'' then
           (let (messages1, vert_sample, feat_sample, feat_probs1, rng1) =
                  fold (server_downward sample_from_probs multinomial (server_tree srv) edge_probs counts)
                    (server_schedule srv)
                    (messages, replicate V 0, map (map (\<lambda>x. 0)) data_row, feat_probs, rng)
            in (Inr (sample_result feat_sample),
                srv\<lparr>posterior := (posterior srv)\<lparr>observed_latent := feat_probs1\<rparr>\<rparr>, rng1))
         else (Inl ValueError, srv, rng)))"

text \<open>
  The two public queries. \<^verbatim>\<open>sample\<close> first logs \<^verbatim>\<open>cond_data[0].shape[0]\<close>.
  \<^verbatim>\<open>logprob\<close> calls \<^verbatim>\<open>_propagate\<close> without counts (\<^verbatim>\<open>counts=None\<close>, never read on
  that path; the empty list here).
\<close>

definition same_shapes :: "int list list \<Rightarrow> int list list \<Rightarrow> bool" where
  "same_shapes xs ys = list_all2 (\<lambda>x y. length x = length y) xs ys"

definition server_sample ::
  "('r \<Rightarrow> vec \<Rightarrow> nat \<times> 'r) \<Rightarrow> ('r \<Rightarrow> int \<Rightarrow> vec \<Rightarrow> int list \<times> 'r) \<Rightarrow>
   int list list \<Rightarrow> int list \<Rightarrow> server \<times> 'r \<Rightarrow> (error + propagate_result) \<times> server \<times> 'r" where
  "server_sample sample_from_probs multinomial cond_data counts = (\<lambda>(srv, rng).
     (let (V, E, M) = VEM srv
      in if cond_data = [] then (Inl IndexError, srv, rng)
         else if length cond_data \<noteq> V then (Inl AssertionError, srv, rng)
         else if \<not> same_shapes (take V cond_data) (take V (zero_row srv))
           then (Inl AssertionError, srv, rng)
         else if length counts \<noteq> V then (Inl AssertionError, srv, rng)
         else propagate sample_from_probs multinomial ''sample'' cond_data counts (srv, rng)))"

definition server_logprob ::
  "('r \<Rightarrow> vec \<Rightarrow> nat \<times> 'r) \<Rightarrow> ('r \<Rightarrow> int \<Rightarrow> vec \<Rightarrow> int list \<times> 'r) \<Rightarrow>
   int list list \<Rightarrow> server \<times> 'r \<Rightarrow> (error + propagate_result) \<times> server \<times> 'r" where
  "server_logprob sample_from_probs multinomial data_row = (\<lambda>(srv, rng).
     (let (V, E, M) = VEM srv
      in if length data_row \<noteq> V then (Inl AssertionError, srv, rng)
         else if \<not> same_shapes (take V data_row) (take V (zero_row srv))
           then (Inl AssertionError, srv, rng)
         else propagate sample_from_probs multinomial ''logprob'' data_row [] (srv, rng)))"

subsection \<open>Notions used in the proofs about the schedule\<close>

text \<open>
  The value of the counter, when it is finite.
\<close>

definition counter :: "anneal \<Rightarrow> real" where
  "counter s = (case state s of Finite x \<Rightarrow> x | _ \<Rightarrow> 0)"

text \<open>
  The settings in which no operation on the counter rounds: a unit \<open>2 powi k\<close> of which
  1 and the epochs \<open>e\<close> are whole multiples, and a bound \<open>S\<close> of at most \<open>2 ^ 53\<close> units.
\<close>

definition exact_rates :: "int \<Rightarrow> real \<Rightarrow> real \<Rightarrow> bool" where
  "exact_rates k e S \<longleftrightarrow>
     - 1074 \<le> k \<and> k \<le> 0 \<and> (\<exists>E. e = of_int E * 2 powi k) \<and> 1 \<le> e \<and> e \<le> S \<and> S \<le> 2 ^ 53 * 2 powi k"

text \<open>
  The invariant of the \<^verbatim>\<open>while\<close> loop for epochs \<open>e\<close>, a unit \<open>2 powi k\<close> and a bound
  \<open>S\<close> on the counter: the counter is finite, a whole multiple of the unit, and between
  \<open>- S\<close> and \<open>S\<close>; the two tallies add up to the number of adds minus the number of
  removes, which lies between 0 and the number of rows; and the counter is what the adds
  and removes so far have made of a non-negative start. The potential falls by one with
  every run of the loop body.
\<close>

definition anneal_inv :: "int \<Rightarrow> nat \<Rightarrow> real \<Rightarrow> real \<Rightarrow> anneal \<Rightarrow> bool" where
  "anneal_inv k N e S s \<longleftrightarrow>
     state s = Finite (counter s)
   \<and> (\<exists>n. counter s = of_int n * 2 powi k)
   \<and> - S \<le> counter s
   \<and> counter s \<le> S
   \<and> num_fresh s + num_stale s = int (row_to_add s) - int (row_to_remove s)
   \<and> row_to_remove s \<le> row_to_add s
   \<and> row_to_add s \<le> row_to_remove s + N
   \<and> e * real (row_to_remove s) \<le> counter s + (e - 1) * real (row_to_add s)"

definition anneal_potential :: "nat \<Rightarrow> real \<Rightarrow> real \<Rightarrow> anneal \<Rightarrow> real" where
  "anneal_potential N e S s =
     (2 * e - 1) * (real N + real (row_to_remove s) - real (row_to_add s)) - 2 * counter s + 2 * S"

text \<open>
  The states that the loop walks through for \<open>2 ^ 54\<close> epochs and no initial rows: the
  counter is 0 after as many removes as adds, and \<open>- 2 ^ 54\<close> after one add more.
\<close>

definition anneal_stuck :: "anneal \<Rightarrow> bool" where
  "anneal_stuck s \<longleftrightarrow>
     state s = Finite 0 \<and> num_fresh s + num_stale s = 0
   \<or> state s = Finite (- (2 ^ 54)) \<and> num_fresh s + num_stale s = 1"

text \<open>The rows produced by the add cursor and not yet by the remove cursor.\<close>

definition assigned_window :: "nat list \<Rightarrow> nat \<Rightarrow> nat \<Rightarrow> nat set" where
  "assigned_window row_ids r a = cycle_next row_ids ` {r..<a}"

subsection \<open>Notions used in the statements\<close>

text \<open>
  Two conditions on the data row \<open>row_id\<close> of a trainer. \<open>tallied_shapes\<close>: every feature
  table has one row per count of the data row (the shape \<^verbatim>\<open>__init__\<close> gives the tables).
  \<open>invertible_counts\<close>: no stored count of the row is \<open>-128\<close>, the one \<^verbatim>\<open>int8\<close> value
  whose negation is itself.
\<close>

definition tallied_shapes :: "trainer \<Rightarrow> nat \<Rightarrow> bool" where
  "tallied_shapes s row_id =
     list_all2 (\<lambda>tbl column. length tbl = length (column ! row_id)) (feat_ss s) (data s)"

definition invertible_counts :: "trainer \<Rightarrow> nat \<Rightarrow> bool" where
  "invertible_counts s row_id = list_all (\<lambda>column. list_all (\<lambda>x. x \<noteq> - 128) (column ! row_id)) (data s)"

text \<open>An input whose columns are rectangular, as NumPy arrays are.\<close>

definition rectangular :: "'a list list list \<Rightarrow> bool" where
  "rectangular data0 = list_all (\<lambda>column. list_all (\<lambda>row. length row = column_width column) column) data0"

text \<open>
  What \<^verbatim>\<open>np.asarray(column, np.int8)\<close> makes of an integer count, and the inputs it
  leaves as they are.
\<close>

definition wrap_int8 :: "int \<Rightarrow> int" where
  "wrap_int8 x = (x + 128) mod 256 - 128"

definition counts_in_int8_range :: "int list list list \<Rightarrow> bool" where
  "counts_in_int8_range data0 = list_all (list_all (list_all (\<lambda>x. 0 \<le> x \<and> x \<le> 127))) data0"

text \<open>A data row as the trainer holds it: for every feature the stored counts of the row.\<close>

definition trainer_row :: "trainer \<Rightarrow> nat \<Rightarrow> int list list" where
  "trainer_row s row_id = map (\<lambda>column. map sint (column ! row_id)) (data s)"

subsection \<open>Concrete inputs\<close>

text \<open>
  A tree of one vertex and a chain of three vertices, with their schedules; configurations
  with one and with two clusters; samplers that always draw the first (or the second)
  cluster, and a multinomial sampler that puts all draws into the first category.
\<close>

definition ex_tree1 :: tree_structure where
  "ex_tree1 = \<lparr>num_vertices = 1, vertices = [0], tree_grid = [], complete_grid = [],
     find_tree_edge = (\<lambda>v w. 0)\<rparr>"

definition ex_TreeStructure1 :: "nat \<Rightarrow> tree_structure" where
  "ex_TreeStructure1 num_features = ex_tree1"

definition ex_schedule1 :: "(nat \<times> nat \<times> nat) list \<Rightarrow> propagation_schedule" where
  "ex_schedule1 grid = [(0, None, [])]"

definition ex_tree3 :: tree_structure where
  "ex_tree3 = \<lparr>num_vertices = 3, vertices = [0, 1, 2],
     tree_grid = [(0, 0, 1), (1, 1, 2)],
     complete_grid = [(0, 0, 1), (1, 0, 2), (2, 1, 2)],
     find_tree_edge = (\<lambda>v w. if v + w = 1 then 0 else 1)\<rparr>"

definition ex_TreeStructure3 :: "nat \<Rightarrow> tree_structure" where
  "ex_TreeStructure3 num_features = ex_tree3"

definition ex_schedule3 :: "(nat \<times> nat \<times> nat) list \<Rightarrow> propagation_schedule" where
  "ex_schedule3 grid = [(0, None, [1]), (1, Some 0, [2]), (2, Some 1, [])]"

definition ex_config1 :: config where
  "ex_config1 = \<lparr>model_num_clusters = 1, learning_annealing_epochs = PyFloat (Finite 2),
     learning_annealing_init_rows = PyInt 0, learning_sample_tree_steps = 0\<rparr>"

definition ex_config2 :: config where
  "ex_config2 = \<lparr>model_num_clusters = 2, learning_annealing_epochs = PyFloat (Finite 2),
     learning_annealing_init_rows = PyInt 0, learning_sample_tree_steps = 0\<rparr>"

definition draw_first :: "unit \<Rightarrow> vec \<Rightarrow> nat \<times> unit" where
  "draw_first rng message = (0, rng)"

definition draw_second :: "unit \<Rightarrow> vec \<Rightarrow> nat \<times> unit" where
  "draw_second rng message = (1, rng)"

definition multinomial_first :: "unit \<Rightarrow> int \<Rightarrow> vec \<Rightarrow> int list \<times> unit" where
  "multinomial_first rng n probs = (n # replicate (length probs - 1) 0, rng)"

text \<open>
  The sum over all rows of the per-row \<^verbatim>\<open>logprob\<close> of a server that is built from the
  trainer's tree, \<^verbatim>\<open>suffstats\<close> and config. The query draws nothing, so the two samplers
  it is given do not matter; a query that fails counts as 0.
\<close>

definition server_row_logprob :: "server \<Rightarrow> int list list \<Rightarrow> real" where
  "server_row_logprob srv row =
     (case fst (server_logprob draw_first multinomial_first row (srv, ())) of
        Inr (logprob_result x) \<Rightarrow> x
      | _ \<Rightarrow> 0)"

definition server_logprob_sum ::
  "((nat \<times> nat \<times> nat) list \<Rightarrow> propagation_schedule) \<Rightarrow> trainer \<Rightarrow> real" where
  "server_logprob_sum make_propagation_schedule s =
     (case TreeCatServer_init make_propagation_schedule (tree s) (get_suffstats s) (config s) of
        Inl err \<Rightarrow> 0
      | Inr srv \<Rightarrow> sum_list (map (\<lambda>r. server_row_logprob srv (trainer_row s r)) [0..<length (assignments s)]))"

text \<open>
  The training-side log-probability in closed form, following the claim's words ("the
  closed-form incremental formula over sufficient statistics"), to be compared with
  \<open>logprob\<close>. \<open>statistics_shaped\<close>: the three arrays have the shapes that \<^verbatim>\<open>__init__\<close>
  gives them (\<open>(V, M)\<close>, \<open>(E, M, M)\<close> and, for every vertex, \<open>(K\<^sub>v, M)\<close>), the tree grid
  names edges and vertices within them, and the priors are the Jeffreys priors \<open>1/2\<close>
  and \<open>1 / (2 M)\<close>. For counts \<open>n\<close> and a prior \<open>a\<close> the Dirichlet-categorical term of
  a table is the sum of \<open>gammaln (n + a)\<close> over its cells: \<open>dc_vertex\<close> for row \<open>v\<close> of
  \<open>vert_ss\<close>, \<open>dc_edge\<close> for table \<open>e\<close> of \<open>edge_ss\<close>, \<open>dc_feature\<close> for the table of
  feature \<open>v\<close>, and \<open>dc_feature_totals\<close> for the column sums of that table. The closed
  form adds the vertex terms, for every edge of the tree its term less the terms of its
  two vertices, and for every feature its term less that of its column sums.
\<close>

definition statistics_shaped :: "trainer \<Rightarrow> bool" where
  "statistics_shaped s =
     (case VEKM s of (V, E, K, M) \<Rightarrow>
        length (vert_ss s) = V \<and> list_all (\<lambda>row. length row = M) (vert_ss s)
      \<and> length (edge_ss s) = E
      \<and> list_all (\<lambda>tbl. length tbl = M \<and> list_all (\<lambda>row. length row = M) tbl) (edge_ss s)
      \<and> length (feat_ss s) = V \<and> list_all (list_all (\<lambda>row. length row = M)) (feat_ss s)
      \<and> list_all (\<lambda>(e, v1, v2). e < E \<and> v1 < V \<and> v2 < V) (tree_grid (tree s))
      \<and> vert_prior s = 1 / 2 \<and> edge_prior s = 1 / (2 * real M) \<and> feat_prior s = 1 / (2 * real M))"

definition dc_vertex :: "trainer \<Rightarrow> nat \<Rightarrow> nat \<Rightarrow> real" where
  "dc_vertex s M v = (\<Sum>m<M. gammaln (real_of_int (sint (vert_ss s ! v ! m)) + 1 / 2))"

definition dc_edge :: "trainer \<Rightarrow> nat \<Rightarrow> nat \<Rightarrow> real" where
  "dc_edge s M e =
     (\<Sum>i<M. \<Sum>j<M. gammaln (real_of_int (sint (edge_ss s ! e ! i ! j)) + 1 / (2 * real M)))"

definition dc_feature :: "trainer \<Rightarrow> nat \<Rightarrow> nat \<Rightarrow> real" where
  "dc_feature s M v =
     (\<Sum>c<length (feat_ss s ! v). \<Sum>m<M.
        gammaln (real_of_int (sint (feat_ss s ! v ! c ! m)) + 1 / (2 * real M)))"

definition dc_feature_totals :: "trainer \<Rightarrow> nat \<Rightarrow> nat \<Rightarrow> real" where
  "dc_feature_totals s M v =
     (\<Sum>m<M. gammaln (\<Sum>c<length (feat_ss s ! v).
        (real_of_int (sint (feat_ss s ! v ! c ! m)) + 1 / (2 * real M))))"

definition closed_form_logprob :: "trainer \<Rightarrow> real" where
  "closed_form_logprob s =
     (case VEKM s of (V, E, K, M) \<Rightarrow>
        (\<Sum>v<V. dc_vertex s M v)
      + (\<Sum>(e, v1, v2)\<leftarrow>tree_grid (tree s). dc_edge s M e - dc_vertex s M v1 - dc_vertex s M v2)
      + (\<Sum>v<V. dc_feature s M v - dc_feature_totals s M v))"

text \<open>
  The sums that \<^verbatim>\<open>make_posterior\<close> divides by for vertex \<open>v\<close>: the row sum of
  \<open>0.5 + vert_ss[v]\<close> and, for every cluster \<open>m\<close>, the column sum of
  \<open>0.5 / M + feat_ss[v][:, m]\<close>.
\<close>

definition vertex_total :: "suffstats \<Rightarrow> nat \<Rightarrow> real" where
  "vertex_total ss v = sum_list (map (\<lambda>x. 0.5 + astype_float x) (vert_ss ss ! v))"

definition feature_total :: "suffstats \<Rightarrow> nat \<Rightarrow> nat \<Rightarrow> real" where
  "feature_total ss v m =
     sum_list (map (\<lambda>row. 0.5 / real (column_width (vert_ss ss)) + astype_float (row ! m)) (feat_ss ss ! v))"

definition normalisers_nonzero :: "suffstats \<Rightarrow> nat \<Rightarrow> bool" where
  "normalisers_nonzero ss v \<longleftrightarrow>
     vertex_total ss v \<noteq> 0 \<and> list_all (\<lambda>m. feature_total ss v m \<noteq> 0) [0..<column_width (vert_ss ss)]"

text \<open>
  One feature with one category, one row with the count 128, one cluster: the trainer as
  constructed, after \<^verbatim>\<open>add_row(0)\<close>, and after \<^verbatim>\<open>remove_row(0)\<close>.
\<close>

definition ex128_init :: "error + trainer" where
  "ex128_init = TreeCatTrainer_init ex_TreeStructure1 ex_schedule1 [[[128]]] ex_config1"

definition ex128_added :: trainer where
  "ex128_added = fst (snd (add_row draw_first 0 (projr ex128_init, ())))"

definition ex128_removed :: trainer where
  "ex128_removed = snd (remove_row 0 ex128_added)"

text \<open>
  One feature with two categories, one row with the counts 1 and 2, two clusters: the
  trainer as constructed and after \<^verbatim>\<open>add_row(0)\<close>; the server built from the statistics
  of the fresh trainer, and that server after one \<^verbatim>\<open>sample\<close> query.
\<close>

definition ex12_init :: "error + trainer" where
  "ex12_init = TreeCatTrainer_init ex_TreeStructure1 ex_schedule1 [[[1, 2]]] ex_config2"

definition ex12_added :: trainer where
  "ex12_added = fst (snd (add_row draw_second 0 (projr ex12_init, ())))"

definition ex_server_init :: "error + server" where
  "ex_server_init = TreeCatServer_init ex_schedule1 ex_tree1 (get_suffstats (projr ex12_init)) ex_config2"

definition ex_server_sampled :: server where
  "ex_server_sampled = fst (snd (server_sample draw_first multinomial_first [[0, 0]] [1] (projr ex_server_init, ())))"

text \<open>
  Two data sets of two rows over one feature with two categories, one cluster, each
  trained to the end (both rows added).
\<close>

definition exA_init :: "error + trainer" where
  "exA_init = TreeCatTrainer_init ex_TreeStructure1 ex_schedule1 [[[2, 0], [0, 2]]] ex_config1"

definition exA_final :: trainer where
  "exA_final = fst (snd (add_row draw_first 1 (fst (snd (add_row draw_first 0 (projr exA_init, ()))), ())))"

definition exB_init :: "error + trainer" where
  "exB_init = TreeCatTrainer_init ex_TreeStructure1 ex_schedule1 [[[1, 1], [1, 1]]] ex_config1"

definition exB_final :: trainer where
  "exB_final = fst (snd (add_row draw_first 1 (fst (snd (add_row draw_first 0 (projr exB_init, ()))), ())))"

text \<open>
  A snapshot with one vertex whose feature has no category (a table of shape \<open>(0, 1)\<close>).
\<close>

definition ex_empty_feature :: suffstats where
  "ex_empty_feature = \<lparr>feat_ss = [[]], vert_ss = [[0]], edge_ss = []\<rparr>"

text \<open>
  Three features with one category each, one row, one cluster, on the chain of three
  vertices: the trainer as constructed.
\<close>

definition ex3_init :: "error + trainer" where
  "ex3_init = TreeCatTrainer_init ex_TreeStructure3 ex_schedule3 [[[1]], [[1]], [[1]]] ex_config1"

text \<open>
  A message, a table and its column sums for the evidence fold-in.
\<close>

definition ex_message :: vec where "ex_message = [1/2, 1/2]"

definition ex_obs_lat :: mat where "ex_obs_lat = [[1/4, 1/4], [1/4, 1/4]]"

definition ex_lat :: vec where "ex_lat = [1/2, 1/2]"

subsection \<open>Concrete configurations of the schedule\<close>

text \<open>
  Two and a half epochs with one initial row; \<open>2 ^ 54\<close> epochs with no initial rows; one
  epoch with an initial-rows value of \<open>-1\<close>.
\<close>

definition ex_config_anneal :: config where
  "ex_config_anneal = \<lparr>model_num_clusters = 2, learning_annealing_epochs = PyFloat (Finite (5/2)),
     learning_annealing_init_rows = PyInt 1, learning_sample_tree_steps = 1\<rparr>"

definition ex_config_2_54 :: config where
  "ex_config_2_54 = \<lparr>model_num_clusters = 2, learning_annealing_epochs = PyFloat (Finite (2 ^ 54)),
     learning_annealing_init_rows = PyInt 0, learning_sample_tree_steps = 1\<rparr>"

definition ex_config_negative :: config where
  "ex_config_negative = \<lparr>model_num_clusters = 2, learning_annealing_epochs = PyFloat (Finite 1),
     learning_annealing_init_rows = PyInt (- 1), learning_sample_tree_steps = 0\<rparr>"

section \<open>Properties\<close>

subsection \<open>Rounding is exact on whole multiples of a unit\<close>

lemma ulp_search_le:
  "e0 \<le> k \<Longrightarrow> a < 2 powi (k + 53) \<Longrightarrow> ulp_search e0 a \<le> k"
proof (induction e0 a rule: ulp_search.induct)
  case (1 e a)
  show ?case
  proof (cases "971 < e \<or> a < 2 powi (e + 53)")
    case True
    then have "ulp_search e a = e" by (subst ulp_search.simps) simp
    with "1.prems" show ?thesis by simp
  next
    case False
    then have eq: "ulp_search e a = ulp_search (e + 1) a" by (subst ulp_search.simps) simp
    from False "1.prems" have "e \<noteq> k" by auto
    with "1.prems" have "e + 1 \<le> k" by simp
    from "1.IH" [OF False this "1.prems"(2)] eq show ?thesis by simp
  qed
qed

lemma ulp_search_eq:
  assumes "e0 \<le> e" "e \<le> 971" "a < 2 powi (e + 53)" "e0 < e \<Longrightarrow> 2 powi (e + 52) \<le> a"
  shows "ulp_search e0 a = e"
  using assms
proof (induction e0 a rule: ulp_search.induct)
  case (1 e0 a)
  show ?case
  proof (cases "e0 = e")
    case True
    with "1.prems" show ?thesis by (subst ulp_search.simps) simp
  next
    case False
    with "1.prems" have lt: "e0 < e" by simp
    then have "e0 + 53 \<le> e + 52" by simp
    then have "(2::real) powi (e0 + 53) \<le> 2 powi (e + 52)" by (intro power_int_increasing) auto
    with "1.prems"(4) [OF lt] have ge: "2 powi (e0 + 53) \<le> a" by simp
    with lt "1.prems"(2) have cont: "\<not> (971 < e0 \<or> a < 2 powi (e0 + 53))" by auto
    then have eq: "ulp_search e0 a = ulp_search (e0 + 1) a" by (subst ulp_search.simps) simp
    have "ulp_search (e0 + 1) a = e"
      using lt "1.prems" by (intro "1.IH" [OF cont]) auto
    with eq show ?thesis by simp
  qed
qed

lemma round_half_even_of_int [simp]: "round_half_even (of_int m) = m"
  by (simp add: round_half_even_def)

lemma round64_exact:
  assumes k: "- 1074 \<le> k" and n: "\<bar>n\<bar> < 2 ^ 53"
    and fin: "\<bar>of_int n * 2 powi k\<bar> < (2::real) powi 1024"
  shows "round64 (of_int n * 2 powi k) = Finite (of_int n * 2 powi k)"
proof -
  define x :: real where "x = of_int n * 2 powi k"
  define e where "e = ulp_search (- 1074) \<bar>x\<bar>"
  have "\<bar>x\<bar> = of_int \<bar>n\<bar> * 2 powi k" by (simp add: x_def abs_mult)
  also have "\<dots> < 2 ^ 53 * 2 powi k"
  proof -
    from n have "(of_int \<bar>n\<bar> :: real) < of_int (2 ^ 53)" by (simp only: of_int_less_iff)
    then show ?thesis by simp
  qed
  also have "\<dots> = 2 powi (k + 53)" by (simp add: power_int_add)
  finally have "\<bar>x\<bar> < 2 powi (k + 53)" .
  from ulp_search_le [OF k this] have ek: "e \<le> k" by (simp add: e_def)
  define m where "m = n * 2 ^ nat (k - e)"
  have "(2::real) powi k = 2 powi (k - e) * 2 powi e"
    by (simp flip: power_int_add)
  also have "(2::real) powi (k - e) = 2 ^ nat (k - e)"
    using ek by (simp add: power_int_nonneg_exp)
  finally have xm: "x = of_int m * 2 powi e" by (simp add: x_def m_def)
  then have "x / 2 powi e = of_int m" by simp
  then have y: "of_int (round_half_even (x / 2 powi e)) * 2 powi e = x"
    by (simp add: xm)
  from fin have "x < 2 powi 1024" "- (2 powi 1024) < x" by (simp_all add: x_def abs_less_iff)
  with y show ?thesis
    unfolding x_def [symmetric] by (simp add: round64_def e_def [symmetric] Let_def del: power_int_numeral)
qed

lemma round64_grid:
  assumes k: "- 1074 \<le> k" "k \<le> 970" and n: "\<bar>n\<bar> \<le> 2 ^ 53"
  shows "round64 (of_int n * 2 powi k) = Finite (of_int n * 2 powi k)"
proof (cases "\<bar>n\<bar> < 2 ^ 53")
  case True
  have "\<bar>of_int n * (2::real) powi k\<bar> = of_int \<bar>n\<bar> * 2 powi k" by (simp add: abs_mult)
  also have "\<dots> \<le> 2 ^ 53 * 2 powi k"
  proof -
    from n have "(of_int \<bar>n\<bar> :: real) \<le> of_int (2 ^ 53)" by (simp only: of_int_le_iff)
    then show ?thesis by simp
  qed
  also have "\<dots> = 2 powi (k + 53)" by (simp add: power_int_add)
  also have "\<dots> < 2 powi 1024" using k by (intro power_int_strict_increasing) auto
  finally show ?thesis by (intro round64_exact [OF k(1) True])
next
  case False
  with n have "\<bar>n\<bar> = 2 ^ 53" by simp
  then consider "n = 2 ^ 53" | "n = - (2 ^ 53)" by (auto simp: abs_if split: if_splits)
  then obtain s :: int where s: "\<bar>s\<bar> = 1" "n = s * 2 ^ 53" by (cases; force)
  have eq: "of_int n * (2::real) powi k = of_int s * 2 powi (k + 53)"
    by (simp add: s power_int_add)
  have "\<bar>of_int s * (2::real) powi (k + 53)\<bar> = 2 powi (k + 53)"
    using s(1) by (simp add: abs_mult flip: of_int_abs)
  also have "\<dots> < 2 powi 1024" using k by (intro power_int_strict_increasing) auto
  finally have "round64 (of_int s * 2 powi (k + 53)) = Finite (of_int s * 2 powi (k + 53))"
    using k s(1) by (intro round64_exact) auto
  with eq show ?thesis by simp
qed

lemma round64_of_int:
  assumes "\<bar>n\<bar> \<le> 2 ^ 53"
  shows "round64 (of_int n) = Finite (of_int n)"
  using round64_grid [of 0 n] assms by simp

lemma round64_unit:
  assumes k: "- 1074 \<le> k" "k \<le> 0" and x: "x = of_int n * 2 powi k"
    and b: "\<bar>x\<bar> \<le> 2 ^ 53 * 2 powi k"
  shows "round64 x = Finite x"
proof -
  have "\<bar>x\<bar> = of_int \<bar>n\<bar> * 2 powi k" by (simp add: x abs_mult)
  with b have "(of_int \<bar>n\<bar> :: real) \<le> 2 ^ 53" by simp
  then have "(of_int \<bar>n\<bar> :: real) \<le> of_int (2 ^ 53)" by simp
  then have "\<bar>n\<bar> \<le> 2 ^ 53" by (simp only: of_int_le_iff)
  with k show ?thesis unfolding x by (intro round64_grid) auto
qed

lemma round64_eval:
  assumes "ulp_search (- 1074) \<bar>x\<bar> = e" "round_half_even (x / 2 powi e) = m"
    and "\<bar>of_int m * 2 powi e\<bar> < (2::real) powi 1024"
  shows "round64 x = Finite (of_int m * 2 powi e)"
proof -
  from assms(3) have "of_int m * 2 powi e < (2::real) powi 1024" "- (2 powi 1024) < of_int m * (2::real) powi e"
    by (simp_all add: abs_less_iff)
  then show ?thesis
    unfolding round64_def assms(1) Let_def assms(2) by (simp del: power_int_numeral)
qed

text \<open>The one rounding that matters below: \<open>2 ^ 54 - 1\<close> is not a double.\<close>

lemma round64_tie: "round64 (2 ^ 54 - 1) = Finite (2 ^ 54)"
proof -
  define x :: real where "x = 2 ^ 54 - 1"
  have e: "ulp_search (- 1074) \<bar>x\<bar> = 1"
    by (rule ulp_search_eq) (simp_all add: x_def)
  have "x / 2 powi 1 = of_int (2 ^ 53 - 1) + 1/2" by (simp add: x_def)
  then have r: "round_half_even (x / 2 powi 1) = 2 ^ 53"
    unfolding round_half_even_def by (simp add: Let_def)
  have "round64 x = Finite (of_int (2 ^ 53) * 2 powi 1)"
    by (rule round64_eval [OF e r]) simp
  then show ?thesis by (simp add: x_def)
qed

lemma round64_0 [simp]: "round64 0 = Finite 0"
  using round64_of_int [of 0] by simp

lemma round64_m1 [simp]: "round64 (- 1) = Finite (- 1)"
  using round64_of_int [of "- 1"] by simp

lemma round64_pow54: "round64 (2 ^ 54) = Finite (2 ^ 54)" "round64 (- (2 ^ 54)) = Finite (- (2 ^ 54))"
  using round64_grid [of 1 "2 ^ 53"] round64_grid [of 1 "- (2 ^ 53)"] by simp_all

lemmas round64_values = round64_tie [simplified] round64_pow54 [simplified]

lemma py_float_PyInt:
  assumes "\<bar>n\<bar> \<le> 2 ^ 53"
  shows "py_float (PyInt n) = Inr (Finite (of_int n))"
  using round64_of_int [OF assms] by simp

subsection \<open>The annealing schedule stops, and respects the trainer's preconditions\<close>

lemma anneal_batch_fields:
  assumes "anneal_batch smp s = (b, s2)"
  shows "state s2 = state s" "row_to_add s2 = row_to_add s" "row_to_remove s2 = row_to_remove s"
    "num_fresh s2 + num_stale s2 = num_fresh s + num_stale s"
    "b = [] \<or> b = [sample_tree_action]"
  using assms by (auto simp: anneal_batch_def split: if_splits)

lemma anneal_remove_possible:
  assumes e: "1 \<le> e" and lin: "e * real r \<le> st + (e - 1) * real a" and neg: "st < 0"
  shows "r < a"
proof (rule ccontr)
  assume "\<not> r < a"
  then have "real a \<le> real r" by simp
  then have "(e - 1) * real a \<le> (e - 1) * real r"
    using e by (intro mult_left_mono) auto
  also have "\<dots> \<le> e * real r" by (simp add: algebra_simps)
  finally show False using lin neg by simp
qed

lemma unit_one:
  assumes "k \<le> 0"
  shows "(1::real) = of_int (2 ^ nat (- k)) * 2 powi k"
proof -
  have "(2::real) powi (- k) * 2 powi k = 1" by (simp flip: power_int_add)
  moreover from assms have "(2::real) powi (- k) = 2 ^ nat (- k)"
    by (simp add: power_int_nonneg_exp)
  ultimately show ?thesis by simp
qed

lemma exact_remove_rate:
  assumes ex: "exact_rates k e S"
  shows "float_sub (Finite e) (Finite 1) = Finite (e - 1)"
proof -
  from ex obtain E where k: "- 1074 \<le> k" "k \<le> 0" and E: "e = of_int E * 2 powi k"
    and e: "1 \<le> e" and S: "e \<le> S" "S \<le> 2 ^ 53 * 2 powi k"
    by (auto simp: exact_rates_def)
  have "e - 1 = of_int (E - 2 ^ nat (- k)) * 2 powi k"
    using unit_one [OF k(2)] by (simp add: E algebra_simps)
  moreover from e S have "\<bar>e - 1\<bar> \<le> 2 ^ 53 * 2 powi k" by simp
  ultimately have "round64 (e - 1) = Finite (e - 1)" by (rule round64_unit [OF k])
  then show ?thesis by simp
qed

lemma anneal_move_add:
  assumes ex: "exact_rates k e S" and inv: "anneal_inv k N e S s" and pos: "0 \<le> counter s"
  shows "anneal_move row_ids (Finite e) (Finite (e - 1)) s =
     (add_row_action (cycle_next row_ids (row_to_add s)),
      s\<lparr>state := Finite (counter s - (e - 1)), num_fresh := num_fresh s + 1, row_to_add := row_to_add s + 1\<rparr>)"
proof -
  from ex obtain E where k: "- 1074 \<le> k" "k \<le> 0" and E: "e = of_int E * 2 powi k"
    and e: "1 \<le> e" and S: "e \<le> S" "S \<le> 2 ^ 53 * 2 powi k"
    by (auto simp: exact_rates_def)
  from inv obtain n where st: "state s = Finite (counter s)" and n: "counter s = of_int n * 2 powi k"
    and b: "counter s \<le> S"
    by (auto simp: anneal_inv_def)
  have "counter s - (e - 1) = of_int (n - E + 2 ^ nat (- k)) * 2 powi k"
    using unit_one [OF k(2)] by (simp add: E n algebra_simps)
  moreover from pos b e S have "\<bar>counter s - (e - 1)\<bar> \<le> 2 ^ 53 * 2 powi k" by (simp add: abs_le_iff)
  ultimately have "round64 (counter s - (e - 1)) = Finite (counter s - (e - 1))"
    by (rule round64_unit [OF k])
  then have "float_sub (state s) (Finite (e - 1)) = Finite (counter s - (e - 1))"
    by (simp add: st)
  moreover from pos have "float_ge_zero (state s)" by (simp add: st)
  ultimately show ?thesis by (simp add: anneal_move_def)
qed

lemma anneal_move_remove:
  assumes ex: "exact_rates k e S" and inv: "anneal_inv k N e S s" and neg: "counter s < 0"
  shows "anneal_move row_ids (Finite e) (Finite (e - 1)) s =
     (remove_row_action (cycle_next row_ids (row_to_remove s)),
      s\<lparr>state := Finite (counter s + e), num_stale := num_stale s - 1, row_to_remove := row_to_remove s + 1\<rparr>)"
proof -
  from ex obtain E where k: "- 1074 \<le> k" "k \<le> 0" and E: "e = of_int E * 2 powi k"
    and e: "1 \<le> e" and S: "e \<le> S" "S \<le> 2 ^ 53 * 2 powi k"
    by (auto simp: exact_rates_def)
  from inv obtain n where st: "state s = Finite (counter s)" and n: "counter s = of_int n * 2 powi k"
    and b: "- S \<le> counter s"
    by (auto simp: anneal_inv_def)
  have "counter s + e = of_int (n + E) * 2 powi k"
    by (simp add: E n algebra_simps)
  moreover from neg b e S have "\<bar>counter s + e\<bar> \<le> 2 ^ 53 * 2 powi k" by (simp add: abs_le_iff)
  ultimately have "round64 (counter s + e) = Finite (counter s + e)"
    by (rule round64_unit [OF k])
  then have "float_add (state s) (Finite e) = Finite (counter s + e)"
    by (simp add: st)
  moreover from neg have "\<not> float_ge_zero (state s)" by (simp add: st)
  ultimately show ?thesis by (simp add: anneal_move_def)
qed

lemma counter_update [simp]: "counter (s\<lparr>state := Finite x\<rparr>) = x"
  by (simp add: counter_def)

lemma counter_tallies [simp]:
  "counter (s\<lparr>num_fresh := f\<rparr>) = counter s" "counter (s\<lparr>num_stale := g\<rparr>) = counter s"
  "counter (s\<lparr>row_to_add := a\<rparr>) = counter s" "counter (s\<lparr>row_to_remove := r\<rparr>) = counter s"
  by (simp_all add: counter_def)

lemma anneal_move_inv:
  assumes ex: "exact_rates k e S" and inv: "anneal_inv k N e S s"
    and run: "num_fresh s + num_stale s \<noteq> int N"
    and mv: "anneal_move row_ids (Finite e) (Finite (e - 1)) s = (a, s1)"
  shows "anneal_inv k N e S s1"
    and "anneal_potential N e S s1 = anneal_potential N e S s - 1"
proof -
  from ex obtain E where k: "- 1074 \<le> k" "k \<le> 0" and E: "e = of_int E * 2 powi k"
    and e: "1 \<le> e" and S: "e \<le> S" "S \<le> 2 ^ 53 * 2 powi k"
    by (auto simp: exact_rates_def)
  from inv obtain n where n: "counter s = of_int n * 2 powi k"
    by (auto simp: anneal_inv_def)
  show "anneal_inv k N e S s1"
  proof (cases "0 \<le> counter s")
    case True
    with mv have s1: "s1 = s\<lparr>state := Finite (counter s - (e - 1)), num_fresh := num_fresh s + 1,
        row_to_add := row_to_add s + 1\<rparr>"
      by (simp add: anneal_move_add [OF ex inv])
    from inv run have lt: "row_to_add s < row_to_remove s + N"
      by (auto simp: anneal_inv_def)
    have g: "counter s - (e - 1) = of_int (n - E + 2 ^ nat (- k)) * 2 powi k"
      using unit_one [OF k(2)] by (simp add: E n algebra_simps)
    have "\<exists>m. counter s1 = of_int m * 2 powi k"
      unfolding s1 using g by (intro exI [of _ "n - E + 2 ^ nat (- k)"]) simp
    moreover from inv e S True lt have "state s1 = Finite (counter s1)" "- S \<le> counter s1" "counter s1 \<le> S"
      "num_fresh s1 + num_stale s1 = int (row_to_add s1) - int (row_to_remove s1)"
      "row_to_remove s1 \<le> row_to_add s1" "row_to_add s1 \<le> row_to_remove s1 + N"
      "e * real (row_to_remove s1) \<le> counter s1 + (e - 1) * real (row_to_add s1)"
      by (simp_all add: s1 anneal_inv_def algebra_simps)
    ultimately show ?thesis unfolding anneal_inv_def by blast
  next
    case False
    then have neg: "counter s < 0" by simp
    with mv have s1: "s1 = s\<lparr>state := Finite (counter s + e), num_stale := num_stale s - 1,
        row_to_remove := row_to_remove s + 1\<rparr>"
      by (simp add: anneal_move_remove [OF ex inv])
    from inv have "e * real (row_to_remove s) \<le> counter s + (e - 1) * real (row_to_add s)"
      by (simp add: anneal_inv_def)
    from anneal_remove_possible [OF e this neg] have lt: "row_to_remove s < row_to_add s" .
    have "\<exists>m. counter s1 = of_int m * 2 powi k"
      unfolding s1 by (intro exI [of _ "n + E"]) (simp add: n E algebra_simps)
    moreover from inv e S neg lt have "state s1 = Finite (counter s1)" "- S \<le> counter s1" "counter s1 \<le> S"
      "num_fresh s1 + num_stale s1 = int (row_to_add s1) - int (row_to_remove s1)"
      "row_to_remove s1 \<le> row_to_add s1" "row_to_add s1 \<le> row_to_remove s1 + N"
      "e * real (row_to_remove s1) \<le> counter s1 + (e - 1) * real (row_to_add s1)"
      by (simp_all add: s1 anneal_inv_def algebra_simps)
    ultimately show ?thesis unfolding anneal_inv_def by blast
  qed
  show "anneal_potential N e S s1 = anneal_potential N e S s - 1"
  proof (cases "0 \<le> counter s")
    case True
    with mv have s1: "s1 = s\<lparr>state := Finite (counter s - (e - 1)), num_fresh := num_fresh s + 1,
        row_to_add := row_to_add s + 1\<rparr>"
      by (simp add: anneal_move_add [OF ex inv])
    show ?thesis by (simp add: s1 anneal_potential_def algebra_simps)
  next
    case False
    then have neg: "counter s < 0" by simp
    with mv have s1: "s1 = s\<lparr>state := Finite (counter s + e), num_stale := num_stale s - 1,
        row_to_remove := row_to_remove s + 1\<rparr>"
      by (simp add: anneal_move_remove [OF ex inv])
    show ?thesis by (simp add: s1 anneal_potential_def algebra_simps)
  qed
qed

lemma anneal_batch_counter:
  assumes "anneal_batch smp s = (b, s2)"
  shows "counter s2 = counter s"
  using anneal_batch_fields(1) [OF assms] by (simp add: counter_def)

lemma anneal_body_inv:
  assumes ex: "exact_rates k e S" and inv: "anneal_inv k N e S s"
    and run: "num_fresh s + num_stale s \<noteq> int N"
    and body: "anneal_body row_ids (Finite e) (Finite (e - 1)) smp s = (acts, s')"
  shows "anneal_inv k N e S s'"
    and "anneal_potential N e S s' = anneal_potential N e S s - 1"
proof -
  obtain a s1 where mv: "anneal_move row_ids (Finite e) (Finite (e - 1)) s = (a, s1)"
    by (cases "anneal_move row_ids (Finite e) (Finite (e - 1)) s")
  obtain b s2 where bt: "anneal_batch smp s1 = (b, s2)"
    by (cases "anneal_batch smp s1")
  from body mv bt have s': "s' = s2" by (simp add: anneal_body_def)
  note f = anneal_batch_fields [OF bt] anneal_batch_counter [OF bt]
  from anneal_move_inv [OF ex inv run mv]
  have i1: "anneal_inv k N e S s1" and p1: "anneal_potential N e S s1 = anneal_potential N e S s - 1"
    by simp_all
  from i1 f show "anneal_inv k N e S s'"
    by (simp add: s' anneal_inv_def)
  from p1 f show "anneal_potential N e S s' = anneal_potential N e S s - 1"
    by (simp add: s' anneal_potential_def)
qed

lemma anneal_potential_pos:
  assumes e: "1 \<le> e" and inv: "anneal_inv k N e S s"
    and run: "num_fresh s + num_stale s \<noteq> int N"
  shows "0 < anneal_potential N e S s"
proof -
  from inv run have "row_to_add s < row_to_remove s + N"
    by (auto simp: anneal_inv_def)
  then have "1 \<le> real N + real (row_to_remove s) - real (row_to_add s)"
    by linarith
  then have "(2 * e - 1) * 1 \<le> (2 * e - 1) * (real N + real (row_to_remove s) - real (row_to_add s))"
    using e by (intro mult_left_mono) auto
  moreover define X where "X = (2 * e - 1) * (real N + real (row_to_remove s) - real (row_to_add s))"
  ultimately have "2 * e - 1 \<le> X" by simp
  moreover from inv have "counter s \<le> S" by (simp add: anneal_inv_def)
  moreover have "anneal_potential N e S s = X - 2 * counter s + 2 * S"
    by (simp add: anneal_potential_def X_def)
  ultimately show ?thesis using e by linarith
qed

lemma anneal_loop_rule:
  assumes ex: "exact_rates k e S"
    and base: "\<And>s. anneal_inv k N e S s \<Longrightarrow> num_fresh s + num_stale s = int N \<Longrightarrow> Q s []"
    and step: "\<And>s acts s' rest. anneal_inv k N e S s \<Longrightarrow> num_fresh s + num_stale s \<noteq> int N \<Longrightarrow>
        anneal_body row_ids (Finite e) (Finite (e - 1)) smp s = (acts, s') \<Longrightarrow> anneal_inv k N e S s' \<Longrightarrow>
        Q s' rest \<Longrightarrow> Q s (acts @ rest)"
    and inv: "anneal_inv k N e S s"
  shows "\<exists>acts. anneal_loop row_ids N (Finite e) (Finite (e - 1)) smp s = Some acts \<and> Q s acts"
proof -
  from ex have e: "1 \<le> e" by (simp add: exact_rates_def)
  have aux: "anneal_inv k N e S s \<Longrightarrow> anneal_potential N e S s \<le> real j \<Longrightarrow>
    \<exists>acts. anneal_loop row_ids N (Finite e) (Finite (e - 1)) smp s = Some acts \<and> Q s acts" for j s
  proof (induction j arbitrary: s)
    case 0
    have "num_fresh s + num_stale s = int N"
    proof (rule ccontr)
      assume "num_fresh s + num_stale s \<noteq> int N"
      from anneal_potential_pos [OF e "0.prems"(1) this] "0.prems"(2) show False by simp
    qed
    then show ?case using base [OF "0.prems"(1)]
      by (subst anneal_loop.simps) simp
  next
    case (Suc j)
    show ?case
    proof (cases "num_fresh s + num_stale s = int N")
      case True
      then show ?thesis using base [OF Suc.prems(1)]
        by (subst anneal_loop.simps) simp
    next
      case False
      obtain acts s' where body: "anneal_body row_ids (Finite e) (Finite (e - 1)) smp s = (acts, s')"
        by (cases "anneal_body row_ids (Finite e) (Finite (e - 1)) smp s")
      from anneal_body_inv [OF ex Suc.prems(1) False body]
      have inv': "anneal_inv k N e S s'"
        and pot: "anneal_potential N e S s' = anneal_potential N e S s - 1"
        by simp_all
      from pot Suc.prems(2) have "anneal_potential N e S s' \<le> real j" by simp
      from Suc.IH [OF inv' this] obtain rest
        where rest: "anneal_loop row_ids N (Finite e) (Finite (e - 1)) smp s' = Some rest" and Q: "Q s' rest"
        by blast
      from step [OF Suc.prems(1) False body inv' Q] have "Q s (acts @ rest)" .
      moreover have "anneal_loop row_ids N (Finite e) (Finite (e - 1)) smp s = Some (acts @ rest)"
        using False body rest by (subst anneal_loop.simps) simp
      ultimately show ?thesis by blast
    qed
  qed
  have "anneal_potential N e S s \<le> real (nat \<lceil>anneal_potential N e S s\<rceil>)"
    by linarith
  from aux [OF inv this] show ?thesis .
qed

lemma num_adds_append: "num_adds (xs @ ys) = num_adds xs + num_adds ys"
  by (induction xs rule: num_adds.induct) simp_all

lemma num_removes_append: "num_removes (xs @ ys) = num_removes xs + num_removes ys"
  by (induction xs rule: num_removes.induct) simp_all

lemma added_rows_append: "added_rows (xs @ ys) = added_rows xs @ added_rows ys"
  by (induction xs rule: added_rows.induct) simp_all

lemma removed_rows_append: "removed_rows (xs @ ys) = removed_rows xs @ removed_rows ys"
  by (induction xs rule: removed_rows.induct) simp_all

lemma anneal_body_cases:
  assumes ex: "exact_rates k e S" and inv: "anneal_inv k N e S s"
    and body: "anneal_body row_ids (Finite e) (Finite (e - 1)) smp s = (acts, s')"
  obtains (add) b where "0 \<le> counter s"
      "acts = add_row_action (cycle_next row_ids (row_to_add s)) # b"
      "b = [] \<or> b = [sample_tree_action]"
      "row_to_add s' = row_to_add s + 1" "row_to_remove s' = row_to_remove s"
    | (remove) b where "counter s < 0"
      "acts = remove_row_action (cycle_next row_ids (row_to_remove s)) # b"
      "b = [] \<or> b = [sample_tree_action]"
      "row_to_add s' = row_to_add s" "row_to_remove s' = row_to_remove s + 1"
proof -
  obtain a s1 where mv: "anneal_move row_ids (Finite e) (Finite (e - 1)) s = (a, s1)"
    by (cases "anneal_move row_ids (Finite e) (Finite (e - 1)) s")
  obtain b s2 where bt: "anneal_batch smp s1 = (b, s2)"
    by (cases "anneal_batch smp s1")
  from body mv bt have s': "s' = s2" and acts: "acts = a # b" by (simp_all add: anneal_body_def)
  note f = anneal_batch_fields [OF bt]
  show thesis
  proof (cases "0 \<le> counter s")
    case True
    with mv f show ?thesis
      by (intro add [of b]) (auto simp: anneal_move_add [OF ex inv] s' acts)
  next
    case False
    with mv f show ?thesis
      by (intro remove [of b]) (auto simp: anneal_move_remove [OF ex inv] s' acts)
  qed
qed

lemma mod_distinct_window:
  fixes i j N :: nat
  assumes "i < j" "j - i < N"
  shows "i mod N \<noteq> j mod N"
proof
  assume "i mod N = j mod N"
  then have "j mod N = i mod N" by simp
  with assms(1) have "N dvd j - i" by (simp add: mod_eq_dvd_iff_nat)
  moreover from assms(1) have "0 < j - i" by simp
  ultimately have "N \<le> j - i" by (rule dvd_imp_le)
  with assms(2) show False by simp
qed

lemma cycle_next_distinct:
  assumes d: "distinct row_ids" and "i < j" "j - i < length row_ids"
  shows "cycle_next row_ids i \<noteq> cycle_next row_ids j"
proof -
  from assms(3) have pos: "0 < length row_ids" by linarith
  from mod_distinct_window [OF assms(2,3)] have "i mod length row_ids \<noteq> j mod length row_ids" .
  with d pos show ?thesis
    by (simp add: cycle_next_def nth_eq_iff_index_eq)
qed

lemma window_add_fresh:
  assumes d: "distinct row_ids" and "a < r + length row_ids"
  shows "cycle_next row_ids a \<notin> assigned_window row_ids r a"
proof
  assume "cycle_next row_ids a \<in> assigned_window row_ids r a"
  then obtain j where j: "r \<le> j" "j < a" and eq: "cycle_next row_ids a = cycle_next row_ids j"
    by (auto simp: assigned_window_def)
  from j assms(2) have "a - j < length row_ids" by simp
  from cycle_next_distinct [OF d j(2) this] eq show False by simp
qed

lemma window_add:
  assumes "r \<le> a"
  shows "assigned_window row_ids r (Suc a) = insert (cycle_next row_ids a) (assigned_window row_ids r a)"
  using assms by (simp add: assigned_window_def atLeastLessThanSuc)

lemma window_remove_member:
  assumes "r < a"
  shows "cycle_next row_ids r \<in> assigned_window row_ids r a"
  using assms by (auto simp: assigned_window_def)

lemma window_remove:
  assumes d: "distinct row_ids" and ra: "r < a" and le: "a \<le> r + length row_ids"
  shows "assigned_window row_ids r a - {cycle_next row_ids r} = assigned_window row_ids (Suc r) a"
proof -
  from ra have split: "{r..<a} = insert r {Suc r..<a}" by auto
  have "cycle_next row_ids r \<notin> assigned_window row_ids (Suc r) a"
  proof
    assume "cycle_next row_ids r \<in> assigned_window row_ids (Suc r) a"
    then obtain j where j: "Suc r \<le> j" "j < a" and eq: "cycle_next row_ids r = cycle_next row_ids j"
      by (auto simp: assigned_window_def)
    from j le have "r < j" "j - r < length row_ids" by simp_all
    from cycle_next_distinct [OF d this] eq show False by simp
  qed
  then show ?thesis
    by (auto simp: assigned_window_def split)
qed

lemma window_full:
  assumes d: "distinct row_ids"
  shows "assigned_window row_ids r (r + length row_ids) = set row_ids"
proof (cases "row_ids = []")
  case True
  then show ?thesis by (simp add: assigned_window_def)
next
  case False
  then have pos: "0 < length row_ids" by simp
  have sub: "assigned_window row_ids r (r + length row_ids) \<subseteq> set row_ids"
    using pos by (auto simp: assigned_window_def cycle_next_def)
  have inj: "inj_on (cycle_next row_ids) {r..<r + length row_ids}"
  proof (rule inj_onI)
    fix i j
    assume i: "i \<in> {r..<r + length row_ids}" and j: "j \<in> {r..<r + length row_ids}"
      and eq: "cycle_next row_ids i = cycle_next row_ids j"
    show "i = j"
    proof (rule ccontr)
      assume ne: "i \<noteq> j"
      show False
      proof (cases "i < j")
        case True
        with i j have "j - i < length row_ids" by auto
        from cycle_next_distinct [OF d True this] eq show False by simp
      next
        case False
        with ne have lt: "j < i" by simp
        with i j have "i - j < length row_ids" by auto
        from cycle_next_distinct [OF d lt this] eq show False by simp
      qed
    qed
  qed
  have "card (assigned_window row_ids r (r + length row_ids)) = length row_ids"
    unfolding assigned_window_def using inj by (simp add: card_image)
  also have "\<dots> = card (set row_ids)" using d by (simp add: distinct_card)
  finally show ?thesis using sub by (simp add: card_subset_eq)
qed

lemma replay_assigned_batch:
  assumes "b = [] \<or> b = [sample_tree_action]"
  shows "replay_assigned (b @ rest) A = replay_assigned rest A"
  using assms by auto

lemma anneal_loop_counts:
  assumes ex: "exact_rates k e S" and inv: "anneal_inv k N e S s"
  shows "\<exists>acts. anneal_loop row_ids N (Finite e) (Finite (e - 1)) smp s = Some acts \<and>
    num_adds acts + row_to_add s = num_removes acts + row_to_remove s + N"
proof (rule anneal_loop_rule [OF ex _ _ inv])
  fix s
  assume "anneal_inv k N e S s" "num_fresh s + num_stale s = int N"
  then show "num_adds [] + row_to_add s = num_removes [] + row_to_remove s + N"
    by (simp add: anneal_inv_def)
next
  fix s acts s' rest
  assume sinv: "anneal_inv k N e S s"
    and body: "anneal_body row_ids (Finite e) (Finite (e - 1)) smp s = (acts, s')"
    and IH: "num_adds rest + row_to_add s' = num_removes rest + row_to_remove s' + N"
  from ex sinv body show "num_adds (acts @ rest) + row_to_add s = num_removes (acts @ rest) + row_to_remove s + N"
  proof (cases rule: anneal_body_cases)
    case (add b)
    with IH show ?thesis by (auto simp: num_adds_append num_removes_append)
  next
    case (remove b)
    with IH show ?thesis by (auto simp: num_adds_append num_removes_append)
  qed
qed

lemma anneal_loop_replay:
  assumes ex: "exact_rates k e S" and inv: "anneal_inv k N e S s"
    and d: "distinct row_ids" and len: "length row_ids = N"
  shows "\<exists>acts. anneal_loop row_ids N (Finite e) (Finite (e - 1)) smp s = Some acts \<and>
    replay_assigned acts (assigned_window row_ids (row_to_remove s) (row_to_add s)) = Inr (set row_ids)"
proof (rule anneal_loop_rule [OF ex _ _ inv])
  fix s
  assume "anneal_inv k N e S s" "num_fresh s + num_stale s = int N"
  then have "row_to_add s = row_to_remove s + length row_ids"
    by (simp add: anneal_inv_def len)
  then show "replay_assigned [] (assigned_window row_ids (row_to_remove s) (row_to_add s)) = Inr (set row_ids)"
    using window_full [OF d] by simp
next
  fix s acts s' rest
  assume sinv: "anneal_inv k N e S s" and run: "num_fresh s + num_stale s \<noteq> int N"
    and body: "anneal_body row_ids (Finite e) (Finite (e - 1)) smp s = (acts, s')"
    and inv': "anneal_inv k N e S s'"
    and IH: "replay_assigned rest (assigned_window row_ids (row_to_remove s') (row_to_add s')) = Inr (set row_ids)"
  from sinv run have bounds: "row_to_remove s \<le> row_to_add s" "row_to_add s < row_to_remove s + length row_ids"
    by (auto simp: anneal_inv_def len)
  from ex sinv body show "replay_assigned (acts @ rest) (assigned_window row_ids (row_to_remove s) (row_to_add s)) = Inr (set row_ids)"
  proof (cases rule: anneal_body_cases)
    case (add b)
    from window_add_fresh [OF d bounds(2)] window_add [OF bounds(1)] IH add
    show ?thesis by (simp add: replay_assigned_batch)
  next
    case (remove b)
    from inv' remove have lt: "row_to_remove s < row_to_add s" by (simp add: anneal_inv_def)
    from bounds have "row_to_add s \<le> row_to_remove s + length row_ids" by simp
    from window_remove_member [OF lt] window_remove [OF d lt this] IH remove
    show ?thesis by (simp add: replay_assigned_batch)
  qed
qed

lemma anneal_loop_prefixes:
  assumes ex: "exact_rates k e S" and inv: "anneal_inv k N e S s"
  shows "\<exists>acts. anneal_loop row_ids N (Finite e) (Finite (e - 1)) smp s = Some acts \<and>
    (\<forall>p. prefix p acts \<longrightarrow>
       row_to_remove s + num_removes p \<le> row_to_add s + num_adds p \<and>
       row_to_add s + num_adds p \<le> row_to_remove s + num_removes p + N)"
proof (rule anneal_loop_rule [OF ex _ _ inv])
  fix s
  assume "anneal_inv k N e S s"
  then show "\<forall>p. prefix p [] \<longrightarrow>
       row_to_remove s + num_removes p \<le> row_to_add s + num_adds p \<and>
       row_to_add s + num_adds p \<le> row_to_remove s + num_removes p + N"
    by (simp add: anneal_inv_def)
next
  fix s acts s' rest
  assume sinv: "anneal_inv k N e S s"
    and body: "anneal_body row_ids (Finite e) (Finite (e - 1)) smp s = (acts, s')"
    and inv': "anneal_inv k N e S s'"
    and IH: "\<forall>p. prefix p rest \<longrightarrow>
       row_to_remove s' + num_removes p \<le> row_to_add s' + num_adds p \<and>
       row_to_add s' + num_adds p \<le> row_to_remove s' + num_removes p + N"
  from sinv have b: "row_to_remove s \<le> row_to_add s" "row_to_add s \<le> row_to_remove s + N"
    by (simp_all add: anneal_inv_def)
  from inv' have b': "row_to_remove s' \<le> row_to_add s'" "row_to_add s' \<le> row_to_remove s' + N"
    by (simp_all add: anneal_inv_def)
  show "\<forall>p. prefix p (acts @ rest) \<longrightarrow>
       row_to_remove s + num_removes p \<le> row_to_add s + num_adds p \<and>
       row_to_add s + num_adds p \<le> row_to_remove s + num_removes p + N"
  proof (intro allI impI)
    fix p
    assume "prefix p (acts @ rest)"
    then consider "prefix p acts" | us where "p = acts @ us" "prefix us rest"
      by (auto simp: prefix_append)
    then show "row_to_remove s + num_removes p \<le> row_to_add s + num_adds p \<and>
       row_to_add s + num_adds p \<le> row_to_remove s + num_removes p + N"
    proof cases
      case 1
      from ex sinv body show ?thesis
      proof (cases rule: anneal_body_cases)
        case (add b)
        with 1 have "p = [] \<or> num_adds p = 1 \<and> num_removes p = 0"
          by (auto simp: prefix_Cons)
        with b b' add show ?thesis by auto
      next
        case (remove b)
        with 1 have "p = [] \<or> num_adds p = 0 \<and> num_removes p = 1"
          by (auto simp: prefix_Cons)
        with b b' remove show ?thesis by auto
      qed
    next
      case 2
      from IH 2(2) have h: "row_to_remove s' + num_removes us \<le> row_to_add s' + num_adds us"
        "row_to_add s' + num_adds us \<le> row_to_remove s' + num_removes us + N"
        by simp_all
      from ex sinv body show ?thesis
      proof (cases rule: anneal_body_cases)
        case (add b)
        with h 2(1) show ?thesis by (auto simp: num_adds_append num_removes_append)
      next
        case (remove b)
        with h 2(1) show ?thesis by (auto simp: num_adds_append num_removes_append)
      qed
    qed
  qed
qed

lemma map_upt_step: "map f [a..<a + Suc n] = f a # map f [Suc a..<Suc a + n]"
proof -
  have "a < a + Suc n" by simp
  then have "[a..<a + Suc n] = a # [Suc a..<a + Suc n]" by (rule upt_conv_Cons)
  moreover have "a + Suc n = Suc a + n" by simp
  ultimately have "[a..<a + Suc n] = a # [Suc a..<Suc a + n]" by (simp only:)
  then show ?thesis by (simp only: list.map)
qed

lemma batch_no_rows:
  assumes "b = [] \<or> b = [sample_tree_action]"
  shows "num_adds (b @ rest) = num_adds rest" "num_removes (b @ rest) = num_removes rest"
    "added_rows (b @ rest) = added_rows rest" "removed_rows (b @ rest) = removed_rows rest"
  using assms by auto

lemma anneal_loop_order:
  assumes ex: "exact_rates k e S" and inv: "anneal_inv k N e S s"
  shows "\<exists>acts. anneal_loop row_ids N (Finite e) (Finite (e - 1)) smp s = Some acts \<and>
    added_rows acts = map (cycle_next row_ids) [row_to_add s..<row_to_add s + num_adds acts] \<and>
    removed_rows acts = map (cycle_next row_ids) [row_to_remove s..<row_to_remove s + num_removes acts]"
proof (rule anneal_loop_rule [OF ex _ _ inv])
  fix s :: anneal
  show "added_rows [] = map (cycle_next row_ids) [row_to_add s..<row_to_add s + num_adds []] \<and>
    removed_rows [] = map (cycle_next row_ids) [row_to_remove s..<row_to_remove s + num_removes []]"
    by simp
next
  fix s acts s' rest
  assume sinv: "anneal_inv k N e S s"
    and body: "anneal_body row_ids (Finite e) (Finite (e - 1)) smp s = (acts, s')"
    and IH: "added_rows rest = map (cycle_next row_ids) [row_to_add s'..<row_to_add s' + num_adds rest] \<and>
    removed_rows rest = map (cycle_next row_ids) [row_to_remove s'..<row_to_remove s' + num_removes rest]"
  from ex sinv body show "added_rows (acts @ rest) = map (cycle_next row_ids) [row_to_add s..<row_to_add s + num_adds (acts @ rest)] \<and>
    removed_rows (acts @ rest) = map (cycle_next row_ids) [row_to_remove s..<row_to_remove s + num_removes (acts @ rest)]"
  proof (cases rule: anneal_body_cases)
    case (add b)
    note nb = batch_no_rows [OF add(3), of rest]
    have "added_rows (acts @ rest) = cycle_next row_ids (row_to_add s) # added_rows rest"
      "num_adds (acts @ rest) = Suc (num_adds rest)"
      "removed_rows (acts @ rest) = removed_rows rest"
      "num_removes (acts @ rest) = num_removes rest"
      by (simp_all add: add(2) nb)
    with IH add(4,5) show ?thesis
      by (simp only: map_upt_step) simp
  next
    case (remove b)
    note nb = batch_no_rows [OF remove(3), of rest]
    have "removed_rows (acts @ rest) = cycle_next row_ids (row_to_remove s) # removed_rows rest"
      "num_removes (acts @ rest) = Suc (num_removes rest)"
      "added_rows (acts @ rest) = added_rows rest"
      "num_adds (acts @ rest) = num_adds rest"
      by (simp_all add: remove(2) nb)
    with IH remove(4,5) show ?thesis
      by (simp only: map_upt_step) simp
  qed
qed

lemma anneal_inv_init:
  assumes k: "- 1074 \<le> k" "k \<le> 0"
    and e: "1 \<le> e" "e = of_int E * 2 powi k" "E \<le> 2 ^ 53"
    and i: "0 \<le> i" "e * i = of_int J * 2 powi k" "J \<le> 2 ^ 53"
  shows "exact_rates k e (max e (e * i))"
    and "float_mul (Finite e) (Finite i) = Finite (e * i)"
    and "anneal_inv k N e (max e (e * i))
     \<lparr>state = Finite (e * i), num_fresh = 0, num_stale = 0, row_to_add = 0, row_to_remove = 0\<rparr>"
proof -
  have u: "(0::real) < 2 powi k" by simp
  from e(3) have "(of_int E :: real) \<le> of_int (2 ^ 53)" by (simp only: of_int_le_iff)
  with u have be: "e \<le> 2 ^ 53 * 2 powi k" by (simp add: e(2))
  from i(3) have "(of_int J :: real) \<le> of_int (2 ^ 53)" by (simp only: of_int_le_iff)
  with u have bi: "e * i \<le> 2 ^ 53 * 2 powi k" by (simp add: i(2))
  from e(1) i(1) have nn: "0 \<le> e * i" by simp
  from be bi k e show ex: "exact_rates k e (max e (e * i))"
    by (auto simp: exact_rates_def)
  from nn bi have "\<bar>e * i\<bar> \<le> 2 ^ 53 * 2 powi k" by simp
  from round64_unit [OF k i(2) this]
  show "float_mul (Finite e) (Finite i) = Finite (e * i)" by simp
  from nn e(1) i(2) show "anneal_inv k N e (max e (e * i))
     \<lparr>state = Finite (e * i), num_fresh = 0, num_stale = 0, row_to_add = 0, row_to_remove = 0\<rparr>"
    by (auto simp: anneal_inv_def counter_def)
qed

lemma get_annealing_schedule_exact:
  assumes "py_float (learning_annealing_epochs cfg) = Inr (Finite e)"
    and "py_float (learning_annealing_init_rows cfg) = Inr (Finite i)"
    and "exact_rates k e S"
    and "float_mul (Finite e) (Finite i) = Finite (e * i)"
  shows "get_annealing_schedule shuffle num_rows cfg =
    map_option Inr (anneal_loop (shuffle [0..<num_rows]) num_rows (Finite e) (Finite (e - 1))
      (learning_sample_tree_steps cfg > 0)
      \<lparr>state = Finite (e * i), num_fresh = 0, num_stale = 0, row_to_add = 0, row_to_remove = 0\<rparr>)"
  using assms(1,2,4) exact_remove_rate [OF assms(3)]
  by (simp add: get_annealing_schedule_def Let_def)

text \<open>
  Claim C5, as amended. Let the epochs \<open>e \<ge> 1\<close> and the initial-rows value \<open>i \<ge> 0\<close> of
  the configuration be finite, and let there be a unit \<open>2 powi k\<close> between the least
  positive double and 1 of which \<open>e\<close> and \<open>e * i\<close> are whole multiples of at most
  \<open>2 ^ 53\<close> units. (Whole numbers \<open>e\<close> and \<open>i\<close> with \<open>e * max i 1 \<le> 2 ^ 53\<close> are of this
  kind, with \<open>k = 0\<close>; so is every double \<open>e\<close> from 1 to \<open>2 ^ 53\<close> with \<open>i\<close> 0 or 1.) Then
  for every number of rows, with tree sampling on or off, the generator
  \<^verbatim>\<open>get_annealing_schedule\<close> stops after finitely many actions (the result is
  \<open>Some\<close> list), and the actions it has emitted hold exactly \<open>num_rows\<close> more
  \<^verbatim>\<open>add_row\<close> than \<^verbatim>\<open>remove_row\<close>.
\<close>

theorem annealing_schedule_terminates:
  assumes "- 1074 \<le> k" "k \<le> 0"
    and "py_float (learning_annealing_epochs cfg) = Inr (Finite e)"
    and "py_float (learning_annealing_init_rows cfg) = Inr (Finite i)"
    and "1 \<le> e" "e = of_int E * 2 powi k" "E \<le> 2 ^ 53"
    and "0 \<le> i" "e * i = of_int J * 2 powi k" "J \<le> 2 ^ 53"
  shows "\<exists>acts. get_annealing_schedule shuffle num_rows cfg = Some (Inr acts) \<and>
    num_adds acts = num_removes acts + num_rows"
proof -
  note init = anneal_inv_init [OF assms(1,2,5-10)]
  from anneal_loop_counts [OF init(1) init(3)]
  show ?thesis
    by (simp add: get_annealing_schedule_exact [OF assms(3,4) init(1,2)])
qed

theorem annealing_schedule_terminates_witness:
  "(- 1074 :: int) \<le> - 1 \<and> (- 1 :: int) \<le> 0 \<and>
   py_float (learning_annealing_epochs ex_config_anneal) = Inr (Finite (5/2)) \<and>
   py_float (learning_annealing_init_rows ex_config_anneal) = Inr (Finite 1) \<and>
   (1 :: real) \<le> 5/2 \<and> (5/2 :: real) = of_int 5 * 2 powi (- 1) \<and> (5 :: int) \<le> 2 ^ 53 \<and>
   (0 :: real) \<le> 1 \<and> (5/2 :: real) * 1 = of_int 5 * 2 powi (- 1) \<and> (5 :: int) \<le> 2 ^ 53 \<and>
   (\<exists>acts. get_annealing_schedule rev 3 ex_config_anneal = Some (Inr acts) \<and>
    num_adds acts = num_removes acts + 3)"
proof -
  have h: "(- 1074 :: int) \<le> - 1" "(- 1 :: int) \<le> 0"
    "py_float (learning_annealing_epochs ex_config_anneal) = Inr (Finite (5/2))"
    "py_float (learning_annealing_init_rows ex_config_anneal) = Inr (Finite 1)"
    "(1 :: real) \<le> 5/2" "(5/2 :: real) = of_int 5 * 2 powi (- 1)" "(5 :: int) \<le> 2 ^ 53"
    "(0 :: real) \<le> 1" "(5/2 :: real) * 1 = of_int 5 * 2 powi (- 1)" "(5 :: int) \<le> 2 ^ 53"
    by (simp_all add: ex_config_anneal_def py_float_PyInt del: py_float.simps(2))
  from annealing_schedule_terminates [of "- 1" ex_config_anneal "5/2" 1 5 5 rev 3, OF h] h show ?thesis
    by (intro conjI) assumption+
qed

lemma anneal_stuck_body:
  assumes "anneal_stuck s"
    and "anneal_body row_ids (Finite (2 ^ 54)) (Finite (2 ^ 54)) smp s = (acts, s')"
  shows "anneal_stuck s'"
proof -
  obtain a s1 where mv: "anneal_move row_ids (Finite (2 ^ 54)) (Finite (2 ^ 54)) s = (a, s1)"
    by (cases "anneal_move row_ids (Finite (2 ^ 54)) (Finite (2 ^ 54)) s")
  obtain b s2 where bt: "anneal_batch smp s1 = (b, s2)"
    by (cases "anneal_batch smp s1")
  from assms(2) mv bt have s': "s' = s2" by (simp add: anneal_body_def)
  note f = anneal_batch_fields [OF bt]
  from assms(1) mv have "anneal_stuck s1"
    by (auto simp: anneal_stuck_def anneal_move_def round64_values)
  with f show ?thesis by (simp add: s' anneal_stuck_def)
qed

lemma anneal_stuck_loop:
  assumes "anneal_stuck s"
  shows "anneal_loop row_ids 2 (Finite (2 ^ 54)) (Finite (2 ^ 54)) smp s = None"
proof -
  define P where "P = (\<lambda>(ids :: nat list) (N :: nat) a r (smp :: bool) s (acts :: action list).
    N = 2 \<longrightarrow> a = Finite (2 ^ 54) \<longrightarrow> r = Finite (2 ^ 54) \<longrightarrow> \<not> anneal_stuck s)"
  have "P ids N a r smp s acts" if "anneal_loop ids N a r smp s = Some acts" for ids N a r smp s acts
  proof (rule anneal_loop.raw_induct [where P = P, OF _ that])
    fix loop ids N a r smp s acts
    assume IH: "\<And>ids N a r smp s acts. loop ids N a r smp s = Some acts \<Longrightarrow> P ids N a r smp s acts"
      and eq: "(if num_fresh s + num_stale s = int N then Some []
          else case anneal_body ids a r smp s of
            (acts, s') \<Rightarrow> Option.bind (loop ids N a r smp s') (\<lambda>rest. Some (acts @ rest))) = Some acts"
    show "P ids N a r smp s acts"
      unfolding P_def
    proof (intro impI notI)
      assume N: "N = 2" and a: "a = Finite (2 ^ 54)" and r: "r = Finite (2 ^ 54)" and st: "anneal_stuck s"
      from st N have run: "num_fresh s + num_stale s \<noteq> int N" by (auto simp: anneal_stuck_def)
      obtain b s' where body: "anneal_body ids a r smp s = (b, s')"
        by (cases "anneal_body ids a r smp s")
      with eq run obtain rest where "loop ids N a r smp s' = Some rest"
        by (auto simp: bind_eq_Some_conv)
      from IH [OF this] N a r have "\<not> anneal_stuck s'" by (simp add: P_def)
      moreover from anneal_stuck_body [OF st] body a r have "anneal_stuck s'" by simp
      ultimately show False by simp
    qed
  qed
  from this [of row_ids 2 "Finite (2 ^ 54)" "Finite (2 ^ 54)" smp s] assms
  show ?thesis
    by (cases "anneal_loop row_ids 2 (Finite (2 ^ 54)) (Finite (2 ^ 54)) smp s") (auto simp: P_def)
qed

text \<open>
  Claim C5, as stated, fails on the code: the counter is a double, and for \<open>2 ^ 54\<close>
  epochs \<^verbatim>\<open>epochs - 1.0\<close> is \<open>2 ^ 54\<close> again. With no initial rows the counter then
  goes from 0 to \<open>- 2 ^ 54\<close> with every add and back to 0 with every remove, the number
  of adds minus the number of removes goes from 0 to 1 and back, and for two rows the
  generator never stops.
\<close>

theorem annealing_schedule_never_stops:
  "get_annealing_schedule (\<lambda>row_ids. row_ids) 2 ex_config_2_54 = None"
proof -
  have "anneal_stuck \<lparr>state = Finite 0, num_fresh = 0, num_stale = 0, row_to_add = 0, row_to_remove = 0\<rparr>"
    by (simp add: anneal_stuck_def)
  from anneal_stuck_loop [OF this] show ?thesis
    by (simp add: get_annealing_schedule_def ex_config_2_54_def round64_values)
qed

text \<open>
  Claim C9, as amended. Under the conditions of claim C5 on the configuration (epochs
  \<open>e \<ge> 1\<close>, initial-rows value \<open>i \<ge> 0\<close>, both finite, \<open>e\<close> and \<open>e * i\<close> whole multiples of
  a unit \<open>2 powi k\<close> of at most \<open>2 ^ 53\<close> units), and when \<^verbatim>\<open>np.random.shuffle\<close> returns a
  permutation of the row ids, the stream applied in order from the empty assigned set
  never breaks a precondition: every \<^verbatim>\<open>add_row\<close> names a row that is not assigned, every
  \<^verbatim>\<open>remove_row\<close> a row that is, and at the end every row is assigned. After every prefix
  of the stream the number of adds minus the number of removes lies between 0 and
  \<open>num_rows\<close>, and the removed rows are, in order, the rows that were added first: both
  cursors walk the same cyclic permutation.
\<close>

theorem annealing_schedule_preconditions:
  assumes "- 1074 \<le> k" "k \<le> 0"
    and "py_float (learning_annealing_epochs cfg) = Inr (Finite e)"
    and "py_float (learning_annealing_init_rows cfg) = Inr (Finite i)"
    and "1 \<le> e" "e = of_int E * 2 powi k" "E \<le> 2 ^ 53"
    and "0 \<le> i" "e * i = of_int J * 2 powi k" "J \<le> 2 ^ 53"
    and perm: "mset (shuffle [0..<num_rows]) = mset [0..<num_rows]"
  shows "\<exists>acts. get_annealing_schedule shuffle num_rows cfg = Some (Inr acts) \<and>
    replay_assigned acts {} = Inr {0..<num_rows} \<and>
    (\<forall>p. prefix p acts \<longrightarrow> num_removes p \<le> num_adds p \<and> num_adds p \<le> num_removes p + num_rows) \<and>
    removed_rows acts = take (num_removes acts) (added_rows acts)"
proof -
  let ?ids = "shuffle [0..<num_rows]"
  let ?smp = "learning_sample_tree_steps cfg > 0"
  let ?s0 = "\<lparr>state = Finite (e * i), num_fresh = 0, num_stale = 0, row_to_add = 0, row_to_remove = 0\<rparr>"
  let ?loop = "anneal_loop ?ids num_rows (Finite e) (Finite (e - 1)) ?smp ?s0"
  note init = anneal_inv_init [OF assms(1,2,5-10)]
  note ex = init(1) and inv = init(3) [of num_rows]
  from perm have d: "distinct ?ids" using mset_eq_imp_distinct_iff by fastforce
  from perm have len: "length ?ids = num_rows" using mset_eq_length by fastforce
  from perm have set: "set ?ids = {0..<num_rows}" using mset_eq_setD by fastforce
  from anneal_loop_replay [OF ex inv d len] obtain acts where
    acts: "?loop = Some acts" and replay: "replay_assigned acts {} = Inr {0..<num_rows}"
    by (auto simp: assigned_window_def set)
  from anneal_loop_prefixes [OF ex inv, of ?ids ?smp] acts
  have pre: "\<forall>p. prefix p acts \<longrightarrow> num_removes p \<le> num_adds p \<and> num_adds p \<le> num_removes p + num_rows"
    by auto
  from anneal_loop_order [OF ex inv, of ?ids ?smp] acts
  have add: "added_rows acts = map (cycle_next ?ids) [0..<num_adds acts]"
    and rem: "removed_rows acts = map (cycle_next ?ids) [0..<num_removes acts]"
    by auto
  from pre have "num_removes acts \<le> num_adds acts" by auto
  then have "take (num_removes acts) (added_rows acts) = removed_rows acts"
    by (simp add: add rem take_map min_def)
  with acts replay pre show ?thesis
    by (simp add: get_annealing_schedule_exact [OF assms(3,4) init(1,2)])
qed

theorem annealing_schedule_preconditions_witness:
  "(- 1074 :: int) \<le> - 1 \<and> (- 1 :: int) \<le> 0 \<and>
   py_float (learning_annealing_epochs ex_config_anneal) = Inr (Finite (5/2)) \<and>
   py_float (learning_annealing_init_rows ex_config_anneal) = Inr (Finite 1) \<and>
   (1 :: real) \<le> 5/2 \<and> (5/2 :: real) = of_int 5 * 2 powi (- 1) \<and> (5 :: int) \<le> 2 ^ 53 \<and>
   (0 :: real) \<le> 1 \<and> (5/2 :: real) * 1 = of_int 5 * 2 powi (- 1) \<and> (5 :: int) \<le> 2 ^ 53 \<and>
   mset (rev [0..<3]) = mset [0..<3] \<and>
   (\<exists>acts. get_annealing_schedule rev 3 ex_config_anneal = Some (Inr acts) \<and>
    replay_assigned acts {} = Inr {0..<3} \<and>
    (\<forall>p. prefix p acts \<longrightarrow> num_removes p \<le> num_adds p \<and> num_adds p \<le> num_removes p + 3) \<and>
    removed_rows acts = take (num_removes acts) (added_rows acts))"
proof -
  have h: "(- 1074 :: int) \<le> - 1" "(- 1 :: int) \<le> 0"
    "py_float (learning_annealing_epochs ex_config_anneal) = Inr (Finite (5/2))"
    "py_float (learning_annealing_init_rows ex_config_anneal) = Inr (Finite 1)"
    "(1 :: real) \<le> 5/2" "(5/2 :: real) = of_int 5 * 2 powi (- 1)" "(5 :: int) \<le> 2 ^ 53"
    "(0 :: real) \<le> 1" "(5/2 :: real) * 1 = of_int 5 * 2 powi (- 1)" "(5 :: int) \<le> 2 ^ 53"
    "mset (rev [0..<3]) = mset [0..<3]"
    by (simp_all add: ex_config_anneal_def py_float_PyInt del: py_float.simps(2))
  from annealing_schedule_preconditions [of "- 1" ex_config_anneal "5/2" 1 5 5 rev 3, OF h] h show ?thesis
    by (intro conjI) assumption+
qed

text \<open>
  Claim C9, as stated, fails: it puts no condition on the configuration. For one epoch
  and an initial-rows value of \<open>-1\<close> the counter starts at \<open>-1\<close>, and the stream for two
  rows starts with \<^verbatim>\<open>remove_row(0)\<close> while no row is assigned (and ends with
  \<^verbatim>\<open>add_row(0)\<close> while row 0 is assigned): \<^verbatim>\<open>train\<close> stops at the first assertion.
\<close>

theorem annealing_schedule_remove_first:
  "get_annealing_schedule (\<lambda>row_ids. row_ids) 2 ex_config_negative =
     Some (Inr [remove_row_action 0, add_row_action 0, add_row_action 1, add_row_action 0]) \<and>
   replay_assigned [remove_row_action 0, add_row_action 0, add_row_action 1, add_row_action 0] {} =
     Inl AssertionError"
proof -
  let ?loop = "anneal_loop [0, 1] 2 (Finite 1) (Finite 0) False"
  have ids: "[0..<2] = [0, 1 :: nat]" by (simp add: upt_rec)
  have cyc: "cycle_next [0, Suc 0] 0 = 0" "cycle_next [0, Suc 0] (Suc 0) = Suc 0"
    "cycle_next [0, Suc 0] (Suc (Suc 0)) = 0"
    by (simp_all add: cycle_next_def)
  have "?loop \<lparr>state = Finite 0, num_fresh = 3, num_stale = - 1, row_to_add = Suc (Suc (Suc 0)), row_to_remove = 1\<rparr> =
      Some []"
    by (subst anneal_loop.simps) simp
  then have "?loop \<lparr>state = Finite 0, num_fresh = 2, num_stale = - 1, row_to_add = Suc (Suc 0), row_to_remove = 1\<rparr> =
      Some [add_row_action 0]"
    by (subst anneal_loop.simps)
      (simp add: anneal_body_def anneal_move_def anneal_batch_def cyc)
  then have "?loop \<lparr>state = Finite 0, num_fresh = 1, num_stale = - 1, row_to_add = 1, row_to_remove = 1\<rparr> =
      Some [add_row_action 1, add_row_action 0]"
    by (subst anneal_loop.simps)
      (simp add: anneal_body_def anneal_move_def anneal_batch_def cyc)
  then have "?loop \<lparr>state = Finite 0, num_fresh = 0, num_stale = - 1, row_to_add = 0, row_to_remove = 1\<rparr> =
      Some [add_row_action 0, add_row_action 1, add_row_action 0]"
    by (subst anneal_loop.simps)
      (simp add: anneal_body_def anneal_move_def anneal_batch_def cyc)
  then have "?loop \<lparr>state = Finite (- 1), num_fresh = 0, num_stale = 0, row_to_add = 0, row_to_remove = 0\<rparr> =
      Some [remove_row_action 0, add_row_action 0, add_row_action 1, add_row_action 0]"
    by (subst anneal_loop.simps)
      (simp add: anneal_body_def anneal_move_def anneal_batch_def cyc)
  then show ?thesis
    by (simp add: get_annealing_schedule_def ex_config_negative_def py_float_PyInt ids
        del: py_float.simps(2))
qed

subsection \<open>Arrays and concrete values\<close>

lemma length_imap [simp]: "length (imap f xs) = length xs"
  by (simp add: imap_def)

lemma nth_imap [simp]: "i < length xs \<Longrightarrow> imap f xs ! i = f i (xs ! i)"
  by (simp add: imap_def nth_enumerate_eq)

lemma imap_imap: "imap f (imap g xs) = imap (\<lambda>i x. f i (g i x)) xs"
  by (rule nth_equalityI) simp_all

lemma imap_ident: "(\<And>i. i < length xs \<Longrightarrow> f i (xs ! i) = xs ! i) \<Longrightarrow> imap f xs = xs"
  by (rule nth_equalityI) simp_all

lemma replicate_2: "replicate 2 x = [x, x]"
  by (simp add: numeral_2_eq_2)

lemma replicate_3: "replicate 3 x = [x, x, x]"
  by (simp add: numeral_3_eq_3)

lemma sum_list_divide: "sum_list (map (\<lambda>x. x / c) xs) = sum_list xs / (c :: real)"
  by (induction xs) (simp_all add: add_divide_distrib)

lemma sum_list_mult_right: "sum_list (map (\<lambda>x. f x * c) xs) = sum_list (map f xs) * (c :: real)"
  by (induction xs) (simp_all add: algebra_simps)

lemma sum_list_pos_nonempty:
  fixes f :: "'a \<Rightarrow> real"
  assumes "xs \<noteq> []" and "\<And>x. x \<in> set xs \<Longrightarrow> 0 < f x"
  shows "0 < sum_list (map f xs)"
  using assms
proof (induction xs)
  case Nil
  then show ?case by simp
next
  case (Cons x xs)
  have "0 \<le> sum_list (map f xs)"
    using Cons.prems(2) by (intro sum_list_nonneg) (auto intro: less_imp_le)
  moreover have "0 < f x" using Cons.prems(2) by simp
  ultimately show ?case by simp
qed

lemma ex128_init_eq:
  "ex128_init = Inr \<lparr>feat_ss = [[[0]]], vert_ss = [[0]], edge_ss = [],
      data = [[[- 128]]], config = ex_config1, assigned_rows = {}, assignments = [[0]],
      tree = ex_tree1, schedule = [(0, None, [])], VEKM = (1, 0, 0, 1),
      vert_prior = 1/2, edge_prior = 1/2, feat_prior = 1/2\<rparr>"
  by (simp add: ex128_init_def TreeCatTrainer_init_def ex_TreeStructure1_def ex_schedule1_def
      ex_config1_def ex_config2_def ex_tree1_def column_width_def)

lemma ex128_added_eq:
  "ex128_added = \<lparr>feat_ss = [[[- 128]]], vert_ss = [[1]], edge_ss = [],
      data = [[[- 128]]], config = ex_config1, assigned_rows = {0}, assignments = [[0]],
      tree = ex_tree1, schedule = [(0, None, [])], VEKM = (1, 0, 0, 1),
      vert_prior = 1/2, edge_prior = 1/2, feat_prior = 1/2\<rparr>"
  by (simp add: ex128_added_def ex128_init_eq add_row_def trainer_upward_def trainer_downward_def
      draw_first_def update_tensors_def add_at2_def add_at3_def add_column_def imap_def
      index8_def ex_tree1_def fold_evidence_def Let_def)

lemma ex128_removed_eq:
  "ex128_removed = \<lparr>feat_ss = [[[- 256]]], vert_ss = [[0]], edge_ss = [],
      data = [[[- 128]]], config = ex_config1, assigned_rows = {}, assignments = [[0]],
      tree = ex_tree1, schedule = [(0, None, [])], VEKM = (1, 0, 0, 1),
      vert_prior = 1/2, edge_prior = 1/2, feat_prior = 1/2\<rparr>"
  by (simp add: ex128_removed_def ex128_added_eq remove_row_def
      update_tensors_def add_at2_def add_at3_def add_column_def imap_def
      index8_def ex_tree1_def Let_def)

lemma ex12_init_eq:
  "ex12_init = Inr \<lparr>feat_ss = [[[0, 0], [0, 0]]], vert_ss = [[0, 0]], edge_ss = [],
      data = [[[1, 2]]], config = ex_config2, assigned_rows = {}, assignments = [[0]],
      tree = ex_tree1, schedule = [(0, None, [])], VEKM = (1, 0, 0, 2),
      vert_prior = 1/2, edge_prior = 1/4, feat_prior = 1/4\<rparr>"
  by (simp add: ex12_init_def TreeCatTrainer_init_def ex_TreeStructure1_def ex_schedule1_def
      ex_config1_def ex_config2_def ex_tree1_def column_width_def numeral_2_eq_2)

lemma ex_server_init_eq:
  "ex_server_init = Inr \<lparr>server_tree = ex_tree1, server_config = ex_config2,
     posterior = \<lparr>observed = [[1/2, 1/2]], observed_latent = [[[1/4, 1/4], [1/4, 1/4]]],
                  latent = [[1/2, 1/2]], latent_latent = []\<rparr>,
     server_schedule = [(0, None, [])], zero_row = [[0, 0]], VEM = (1, 0, 2)\<rparr>"
  by (simp add: ex_server_init_def ex12_init_eq get_suffstats_def TreeCatServer_init_def
      make_posterior_def column_width_def imap_def astype_float_def vdiv_def vmul_def
      sum_axis0_def sum_axis1_def ex_schedule1_def ex_tree1_def ex_config1_def ex_config2_def Let_def)

lemma exA_final_eq:
  "exA_final = \<lparr>feat_ss = [[[2], [2]]], vert_ss = [[2]], edge_ss = [],
      data = [[[2, 0], [0, 2]]], config = ex_config1, assigned_rows = {0, 1}, assignments = [[0], [0]],
      tree = ex_tree1, schedule = [(0, None, [])], VEKM = (1, 0, 0, 1),
      vert_prior = 1/2, edge_prior = 1/2, feat_prior = 1/2\<rparr>"
  by (simp add: exA_final_def exA_init_def TreeCatTrainer_init_def ex_TreeStructure1_def ex_schedule1_def
      ex_config1_def ex_config2_def ex_tree1_def column_width_def add_row_def trainer_upward_def trainer_downward_def
      draw_first_def update_tensors_def add_at2_def add_at3_def add_column_def imap_def
      index8_def fold_evidence_def Let_def numeral_2_eq_2 insert_commute)

lemma exB_final_eq:
  "exB_final = \<lparr>feat_ss = [[[2], [2]]], vert_ss = [[2]], edge_ss = [],
      data = [[[1, 1], [1, 1]]], config = ex_config1, assigned_rows = {0, 1}, assignments = [[0], [0]],
      tree = ex_tree1, schedule = [(0, None, [])], VEKM = (1, 0, 0, 1),
      vert_prior = 1/2, edge_prior = 1/2, feat_prior = 1/2\<rparr>"
  by (simp add: exB_final_def exB_init_def TreeCatTrainer_init_def ex_TreeStructure1_def ex_schedule1_def
      ex_config1_def ex_config2_def ex_tree1_def column_width_def add_row_def trainer_upward_def trainer_downward_def
      draw_first_def update_tensors_def add_at2_def add_at3_def add_column_def imap_def
      index8_def fold_evidence_def Let_def numeral_2_eq_2 insert_commute)

lemma ex_final_server:
  "TreeCatServer_init ex_schedule1 ex_tree1
     \<lparr>feat_ss = [[[2], [2]]], vert_ss = [[2]], edge_ss = []\<rparr> ex_config1 =
   Inr \<lparr>server_tree = ex_tree1, server_config = ex_config1,
     posterior = \<lparr>observed = [[1/2, 1/2]], observed_latent = [[[1/2], [1/2]]],
                  latent = [[1]], latent_latent = []\<rparr>,
     server_schedule = [(0, None, [])], zero_row = [[0, 0]], VEM = (1, 0, 1)\<rparr>"
  by (simp add: TreeCatServer_init_def
      make_posterior_def column_width_def imap_def astype_float_def vdiv_def vmul_def
      sum_axis0_def sum_axis1_def ex_schedule1_def ex_tree1_def ex_config1_def ex_config2_def Let_def)

lemma ex3_init_eq:
  "ex3_init = Inr \<lparr>feat_ss = [[[0]], [[0]], [[0]]], vert_ss = [[0], [0], [0]], edge_ss = [[[0]], [[0]]],
      data = [[[1]], [[1]], [[1]]], config = ex_config1, assigned_rows = {}, assignments = [[0, 0, 0]],
      tree = ex_tree3, schedule = [(0, None, [1]), (1, Some 0, [2]), (2, Some 1, [])],
      VEKM = (3, 2, 3, 1),
      vert_prior = 1/2, edge_prior = 1/2, feat_prior = 1/2\<rparr>"
  by (simp add: ex3_init_def TreeCatTrainer_init_def ex_TreeStructure3_def ex_schedule3_def
      ex_config1_def ex_tree3_def column_width_def replicate_2 replicate_3)

subsection \<open>The evidence fold-in does not depend on the order of the units\<close>

lemma fold_replicate_funpow: "fold f (replicate n c) = f c ^^ n"
  by (induction n) (simp_all add: funpow_swap1)

lemma fold_evidence_units: "fold_evidence row = fold fold_unit (evidence_units row)"
proof -
  have "fold (\<lambda>(c, count). fold_unit c ^^ nat count) ps =
        fold fold_unit (concat (map (\<lambda>(c, count). replicate (nat count) c) ps))"
    for ps :: "(nat \<times> int) list"
    by (induction ps) (auto simp: fold_replicate_funpow)
  then show ?thesis by (simp add: fold_evidence_def evidence_units_def)
qed

lemma fold_unit_commute: "fold_unit c \<circ> fold_unit d = fold_unit d \<circ> fold_unit c"
proof (rule ext)
  fix st :: evidence
  obtain message obs_lat lat where st: "st = (message, obs_lat, lat)" by (cases st)
  show "(fold_unit c \<circ> fold_unit d) st = (fold_unit d \<circ> fold_unit c) st"
  proof (cases "c = d")
    case True
    then show ?thesis by simp
  next
    case False
    have msg: "vmul (vmul message (vdiv x lat)) (vdiv y (map (\<lambda>x. x + 1) lat)) =
          vmul (vmul message (vdiv y lat)) (vdiv x (map (\<lambda>x. x + 1) lat))" for x y
      by (rule nth_equalityI) (auto simp: vmul_def vdiv_def)
    show ?thesis using False
      by (simp add: st fold_unit_def list_update_swap msg)
  qed
qed

lemma fold_unit_totals:
  "snd (fold fold_unit us (message, obs_lat, lat)) =
     (imap (\<lambda>c row. map (\<lambda>x. x + real (count_list us c)) row) obs_lat,
      map (\<lambda>x. x + real (length us)) lat)"
proof (induction us arbitrary: message obs_lat lat)
  case Nil
  show ?case by (simp add: imap_ident)
next
  case (Cons u us)
  have tbl: "imap (\<lambda>c row. map (\<lambda>x. x + real (count_list us c)) row)
               (obs_lat[u := map (\<lambda>x. x + 1) (obs_lat ! u)]) =
             imap (\<lambda>c row. map (\<lambda>x. x + real (count_list (u # us) c)) row) obs_lat"
    by (rule nth_equalityI) (auto simp: nth_list_update algebra_simps)
  have lat: "map (\<lambda>x. x + real (length us)) (map (\<lambda>x. x + 1) lat) =
             map (\<lambda>x. x + real (length (u # us))) lat"
    by (simp add: algebra_simps)
  show ?case
    using Cons.IH [of "vmul message (vdiv (obs_lat ! u) lat)"
        "obs_lat[u := map (\<lambda>x. x + 1) (obs_lat ! u)]" "map (\<lambda>x. x + 1) lat"]
    by (simp add: fold_unit_def tbl lat del: count_list.simps length_Cons)
qed

text \<open>
  Claim C8. In the evidence fold-in of one vertex, folding the count units in any order
  \<open>us\<close> (any list with the units of the data row, as a multiset) gives the message, the
  table and the column sums that the two nested loops of the source give. Within a pass
  every unit works on the running totals of the units before it: after the units \<open>pre\<close>,
  a unit of category \<open>c\<close> multiplies the message by row \<open>c\<close> of the table, raised by the
  number of earlier units of that category, over the column sums, raised by the number of
  all earlier units (exact arithmetic).
\<close>

theorem evidence_fold_any_order:
  assumes "mset us = mset (evidence_units row)"
  shows "fold fold_unit us (message, obs_lat, lat) = fold_evidence row (message, obs_lat, lat) \<and>
    (c < length obs_lat \<longrightarrow>
       fold fold_unit (pre @ [c]) (message, obs_lat, lat) =
         (vmul (fst (fold fold_unit pre (message, obs_lat, lat)))
            (vdiv (map (\<lambda>x. x + real (count_list pre c)) (obs_lat ! c))
                  (map (\<lambda>x. x + real (length pre)) lat)),
          imap (\<lambda>d row. map (\<lambda>x. x + real (count_list (pre @ [c]) d)) row) obs_lat,
          map (\<lambda>x. x + real (length (pre @ [c]))) lat))"
proof (intro conjI impI)
  have "fold fold_unit us = fold fold_unit (evidence_units row)"
    by (rule fold_multiset_equiv [OF _ assms]) (rule fold_unit_commute)
  then show "fold fold_unit us (message, obs_lat, lat) = fold_evidence row (message, obs_lat, lat)"
    by (simp add: fold_evidence_units)
next
  assume c: "c < length obs_lat"
  obtain m t l where r: "fold fold_unit pre (message, obs_lat, lat) = (m, t, l)"
    by (cases "fold fold_unit pre (message, obs_lat, lat)")
  from fold_unit_totals [of pre message obs_lat lat] r
  have t: "t = imap (\<lambda>c row. map (\<lambda>x. x + real (count_list pre c)) row) obs_lat"
    and l: "l = map (\<lambda>x. x + real (length pre)) lat"
    by simp_all
  from fold_unit_totals [of "pre @ [c]" message obs_lat lat]
  have tot: "snd (fold fold_unit (pre @ [c]) (message, obs_lat, lat)) =
     (imap (\<lambda>d row. map (\<lambda>x. x + real (count_list (pre @ [c]) d)) row) obs_lat,
      map (\<lambda>x. x + real (length (pre @ [c]))) lat)" .
  have "fst (fold fold_unit (pre @ [c]) (message, obs_lat, lat)) = vmul m (vdiv (t ! c) l)"
    by (simp add: r fold_unit_def)
  also have "t ! c = map (\<lambda>x. x + real (count_list pre c)) (obs_lat ! c)"
    using c by (simp add: t)
  finally show "fold fold_unit (pre @ [c]) (message, obs_lat, lat) =
         (vmul (fst (fold fold_unit pre (message, obs_lat, lat)))
            (vdiv (map (\<lambda>x. x + real (count_list pre c)) (obs_lat ! c))
                  (map (\<lambda>x. x + real (length pre)) lat)),
          imap (\<lambda>d row. map (\<lambda>x. x + real (count_list (pre @ [c]) d)) row) obs_lat,
          map (\<lambda>x. x + real (length (pre @ [c]))) lat)"
    using tot by (simp add: r l prod_eq_iff)
qed

lemma ex_units: "evidence_units [2, 1] = [0, 0, 1]"
  by (simp add: evidence_units_def replicate_2)

theorem evidence_fold_any_order_witness:
  "mset [1, 0, 0] = mset (evidence_units [2, 1]) \<and>
   fold fold_unit [1, 0, 0] (ex_message, ex_obs_lat, ex_lat) =
     fold_evidence [2, 1] (ex_message, ex_obs_lat, ex_lat) \<and>
   0 < length ex_obs_lat \<and>
   fold fold_unit ([1, 0] @ [0]) (ex_message, ex_obs_lat, ex_lat) =
     (vmul (fst (fold fold_unit [1, 0] (ex_message, ex_obs_lat, ex_lat)))
        (vdiv (map (\<lambda>x. x + real (count_list [1 :: nat, 0] 0)) (ex_obs_lat ! 0))
              (map (\<lambda>x. x + real (length [1 :: nat, 0])) ex_lat)),
      imap (\<lambda>d row. map (\<lambda>x. x + real (count_list ([1, 0] @ [0]) d)) row) ex_obs_lat,
      map (\<lambda>x. x + real (length ([1 :: nat, 0] @ [0]))) ex_lat)"
proof -
  have h: "mset [1, 0, 0] = mset (evidence_units [2, 1])"
    by (simp add: ex_units)
  have l: "0 < length ex_obs_lat" by (simp add: ex_obs_lat_def)
  note T = evidence_fold_any_order [OF h, of ex_message ex_obs_lat ex_lat 0 "[1, 0]"]
  from h conjunct1 [OF T] l mp [OF conjunct2 [OF T] l] show ?thesis
    by (intro conjI)
qed

subsection \<open>Adding a row and removing it again\<close>

lemma add_at2_inverse: "add_at2 idx (- d) (add_at2 idx d a) = a"
  unfolding add_at2_def imap_imap
  by (intro imap_ident) simp

lemma add_at3_inverse: "add_at3 idx (- d) (add_at3 idx d a) = a"
  unfolding add_at3_def imap_imap
  by (intro imap_ident) simp

lemma scast_neg_int8:
  fixes x :: "8 word"
  assumes "x \<noteq> - 128"
  shows "(scast (- x) :: 32 word) = - scast x"
proof -
  have ne: "sint x \<noteq> - 128"
  proof
    assume "sint x = - 128"
    then have "word_of_int (sint x) = (word_of_int (- 128) :: 8 word)" by simp
    with assms show False by simp
  qed
  have lo: "- 128 \<le> sint x" using sint_ge [of x] by simp
  have hi: "sint x < 128" using sint_lt [of x] by simp
  have b1: "- (2 ^ 7) \<le> - sint x" using hi by simp
  have b2: "- sint x < 2 ^ 7" using ne lo by simp
  have "sint (- x) = signed_take_bit 7 (- sint x)"
    by (simp add: sint_word_ariths)
  also have "\<dots> = - sint x"
    using b1 b2 by (rule signed_take_bit_int_eq_self)
  finally have neg: "sint (- x) = - sint x" .
  have "(scast (- x) :: 32 word) = word_of_int (sint (- x))" by (rule scast_eq)
  also have "\<dots> = word_of_int (- sint x)" by (simp only: neg)
  also have "\<dots> = - word_of_int (sint x)" by simp
  also have "word_of_int (sint x) = (scast x :: 32 word)" by (rule scast_eq [symmetric])
  finally show ?thesis .
qed

lemma add_column_inverse:
  assumes "\<And>c. c < length tbl \<Longrightarrow> counts ! c \<noteq> - 128"
  shows "add_column m (- 1) counts (add_column m 1 counts tbl) = tbl"
  unfolding add_column_def imap_imap
proof (rule imap_ident)
  fix c
  assume c: "c < length tbl"
  let ?row = "tbl ! c"
  have neg: "(scast (- (counts ! c)) :: 32 word) = - scast (counts ! c)"
    using assms [OF c] by (rule scast_neg_int8)
  show "(?row[m := ?row ! m + scast (1 * counts ! c)])
          [m := ?row[m := ?row ! m + scast (1 * counts ! c)] ! m + scast (- 1 * counts ! c)] = ?row"
  proof (cases "m < length ?row")
    case True
    then show ?thesis by (simp add: neg)
  next
    case False
    then show ?thesis by (simp add: list_update_beyond)
  qed
qed

lemma fold_enumerate_update:
  "fold (\<lambda>(v, column) fs. fs[v := g v column (fs ! v)]) (enumerate 0 cols) fs =
   imap (\<lambda>v x. if v < length cols then g v (cols ! v) x else x) fs"
proof (induction cols rule: rev_induct)
  case Nil
  show ?case by (simp add: imap_ident)
next
  case (snoc c cols)
  show ?case
    by (rule nth_equalityI)
      (auto simp: enumerate_append_eq snoc.IH nth_list_update nth_append less_Suc_eq)
qed

lemma update_tensors_feat:
  "feat_ss (update_tensors row_id d s) =
     imap (\<lambda>v x. if v < length (data s)
             then add_column (map index8 (assignments s ! row_id) ! v) (word_of_int d)
                    (data s ! v ! row_id) x
             else x) (feat_ss s)"
  using fold_enumerate_update [where g = "\<lambda>v column x.
      add_column (map index8 (assignments s ! row_id) ! v) (word_of_int d) (column ! row_id) x"
      and cols = "data s" and fs = "feat_ss s"]
  by (simp add: update_tensors_def Let_def)

lemma update_tensors_frame:
  "data (update_tensors row_id d s) = data s"
  "assignments (update_tensors row_id d s) = assignments s"
  "tree (update_tensors row_id d s) = tree s"
  "assigned_rows (update_tensors row_id d s) = assigned_rows s"
  by (simp_all add: update_tensors_def Let_def)

lemma update_tensors_inverse:
  assumes sh: "tallied_shapes s row_id" and inv: "invertible_counts s row_id"
    and s': "s' = (update_tensors row_id 1 s)\<lparr>assigned_rows := A\<rparr>"
  shows "vert_ss (update_tensors row_id (- 1) s') = vert_ss s"
    and "edge_ss (update_tensors row_id (- 1) s') = edge_ss s"
    and "feat_ss (update_tensors row_id (- 1) s') = feat_ss s"
proof -
  show "vert_ss (update_tensors row_id (- 1) s') = vert_ss s"
    using add_at2_inverse [of _ 1] by (simp add: s' update_tensors_def Let_def)
  show "edge_ss (update_tensors row_id (- 1) s') = edge_ss s"
    using add_at3_inverse [of _ 1] by (simp add: s' update_tensors_def Let_def)
  let ?a = "map index8 (assignments s ! row_id)"
  have "imap (\<lambda>v x. if v < length (data s)
            then add_column (?a ! v) (- 1) (data s ! v ! row_id) x else x)
          (imap (\<lambda>v x. if v < length (data s)
            then add_column (?a ! v) 1 (data s ! v ! row_id) x else x) (feat_ss s)) = feat_ss s"
    unfolding imap_imap
  proof (rule imap_ident)
    fix v
    assume v: "v < length (feat_ss s)"
    with sh have vd: "v < length (data s)"
      and len: "length (feat_ss s ! v) = length (data s ! v ! row_id)"
      by (simp_all add: tallied_shapes_def list_all2_conv_all_nth)
    from inv vd have "list_all (\<lambda>x. x \<noteq> - 128) (data s ! v ! row_id)"
      by (simp add: invertible_counts_def list_all_length)
    with len have "\<And>c. c < length (feat_ss s ! v) \<Longrightarrow> data s ! v ! row_id ! c \<noteq> - 128"
      by (simp add: list_all_length)
    from add_column_inverse [OF this] vd
    show "(if v < length (data s)
        then add_column (?a ! v) (- 1) (data s ! v ! row_id)
               (if v < length (data s) then add_column (?a ! v) 1 (data s ! v ! row_id) (feat_ss s ! v)
                else feat_ss s ! v)
        else (if v < length (data s) then add_column (?a ! v) 1 (data s ! v ! row_id) (feat_ss s ! v)
                else feat_ss s ! v)) = feat_ss s ! v"
      by simp
  qed
  then show "feat_ss (update_tensors row_id (- 1) s') = feat_ss s"
    by (simp add: s' update_tensors_feat update_tensors_frame cong: if_cong)
qed

lemma add_row_fresh:
  assumes "row_id \<notin> assigned_rows s"
  shows "\<exists>arow rng'. add_row sfp row_id (s, rng) =
     (Inr (), update_tensors row_id 1
        (s\<lparr>assignments := (assignments s)[row_id := arow],
           assigned_rows := insert row_id (assigned_rows s)\<rparr>), rng')"
  using assms by (auto simp: add_row_def Let_def split: prod.splits)

text \<open>
  Claim C4, as amended. For every trainer state and every row that is not assigned, whose
  feature tables have one row per count of the data row and whose stored counts are all
  different from \<open>-128\<close>: \<^verbatim>\<open>add_row\<close> succeeds, \<^verbatim>\<open>remove_row\<close> of the same row
  succeeds, and \<open>vert_ss\<close>, \<open>edge_ss\<close> and \<open>feat_ss\<close> are afterwards what they were before
  the add, whatever the sampler draws.
\<close>

theorem add_then_remove_restores:
  assumes fresh: "row_id \<notin> assigned_rows s"
    and sh: "tallied_shapes s row_id"
    and inv: "invertible_counts s row_id"
  shows "fst (add_row sfp row_id (s, rng)) = Inr () \<and>
    fst (remove_row row_id (fst (snd (add_row sfp row_id (s, rng))))) = Inr () \<and>
    get_suffstats (snd (remove_row row_id (fst (snd (add_row sfp row_id (s, rng)))))) =
      get_suffstats s"
proof -
  from add_row_fresh [OF fresh, of sfp rng] obtain arow rng' where
    add: "add_row sfp row_id (s, rng) =
     (Inr (), update_tensors row_id 1
        (s\<lparr>assignments := (assignments s)[row_id := arow],
           assigned_rows := insert row_id (assigned_rows s)\<rparr>), rng')"
    by blast
  let ?s1 = "s\<lparr>assignments := (assignments s)[row_id := arow],
           assigned_rows := insert row_id (assigned_rows s)\<rparr>"
  let ?s2 = "(update_tensors row_id 1 ?s1)\<lparr>assigned_rows := insert row_id (assigned_rows s) - {row_id}\<rparr>"
  have sh1: "tallied_shapes ?s1 row_id" using sh by (simp add: tallied_shapes_def)
  have inv1: "invertible_counts ?s1 row_id" using inv by (simp add: invertible_counts_def)
  have rem: "remove_row row_id (update_tensors row_id 1 ?s1) =
      (Inr (), update_tensors row_id (- 1) ?s2)"
    by (simp add: remove_row_def update_tensors_frame)
  note restored = update_tensors_inverse [OF sh1 inv1 refl, of "assigned_rows s - {row_id}"]
  show ?thesis
    using restored by (simp add: add rem get_suffstats_def)
qed

theorem add_then_remove_restores_witness:
  "0 \<notin> assigned_rows (projr ex12_init) \<and> tallied_shapes (projr ex12_init) 0 \<and>
   invertible_counts (projr ex12_init) 0 \<and>
   fst (add_row draw_second 0 (projr ex12_init, ())) = Inr () \<and>
   fst (remove_row 0 (fst (snd (add_row draw_second 0 (projr ex12_init, ()))))) = Inr () \<and>
   get_suffstats (snd (remove_row 0 (fst (snd (add_row draw_second 0 (projr ex12_init, ())))))) =
     get_suffstats (projr ex12_init)"
proof -
  note init = ex12_init_eq
  have h1: "0 \<notin> assigned_rows (projr ex12_init)" by (simp add: init)
  have h2: "tallied_shapes (projr ex12_init) 0" by (simp add: init tallied_shapes_def)
  have h3: "invertible_counts (projr ex12_init) 0" by (simp add: init invertible_counts_def)
  from add_then_remove_restores [OF h1 h2 h3, of draw_second "()"] h1 h2 h3
  show ?thesis by simp
qed

text \<open>
  Claim C4, as stated, fails for a stored count of \<open>-128\<close>, which is how the input
  count 128 is stored: \<^verbatim>\<open>diff * column[row_id, :]\<close> is computed in \<^verbatim>\<open>int8\<close>, where
  \<open>-1 * -128 = -128\<close>, so the removal adds \<open>-128\<close> a second time. After the add and the
  remove the feature tally is \<open>-256\<close>, not 0.
\<close>

theorem add_then_remove_counterexample:
  "\<not> isl ex128_init \<and> 0 \<notin> assigned_rows (projr ex128_init) \<and>
   ex128_added = fst (snd (add_row draw_first 0 (projr ex128_init, ()))) \<and>
   fst (add_row draw_first 0 (projr ex128_init, ())) = Inr () \<and>
   remove_row 0 ex128_added = (Inr (), ex128_removed) \<and>
   feat_ss (projr ex128_init) = [[[0]]] \<and> feat_ss ex128_removed = [[[- 256]]] \<and>
   feat_ss ex128_removed \<noteq> feat_ss (projr ex128_init)"
proof -
  have "fst (add_row draw_first 0 (projr ex128_init, ())) = Inr ()"
    by (simp add: ex128_init_eq add_row_def Let_def split: prod.splits)
  moreover have "remove_row 0 ex128_added = (Inr (), ex128_removed)"
    by (simp add: ex128_removed_def) (simp add: remove_row_def ex128_added_eq)
  ultimately show ?thesis
    by (simp add: ex128_added_def [symmetric] ex128_removed_eq) (simp add: ex128_init_eq)
qed

subsection \<open>Contract violations\<close>

lemma ex12_added_assigned: "assigned_rows ex12_added = {0}"
proof -
  have "0 \<notin> assigned_rows (projr ex12_init)" by (simp add: ex12_init_eq)
  from add_row_fresh [OF this, of draw_second "()"] show ?thesis
    by (auto simp: ex12_added_def update_tensors_frame ex12_init_eq)
qed

text \<open>
  Claim C6. \<^verbatim>\<open>add_row\<close> of a row that is assigned and \<^verbatim>\<open>remove_row\<close> of a row that is not
  raise \<^verbatim>\<open>AssertionError\<close>, and \<^verbatim>\<open>_propagate\<close> with a task other than \<^verbatim>\<open>'logprob'\<close>
  and \<^verbatim>\<open>'sample'\<close> raises \<^verbatim>\<open>ValueError\<close>; in each case the trainer (its statistics
  and its assigned set), respectively the server, and the random generator are left as
  they were.
\<close>

theorem contract_violations_fail_unchanged:
  "(row_id \<in> assigned_rows s \<longrightarrow> add_row sfp row_id (s, rng) = (Inl AssertionError, s, rng)) \<and>
   (row_id' \<notin> assigned_rows s \<longrightarrow> remove_row row_id' s = (Inl AssertionError, s)) \<and>
   (task \<noteq> ''logprob'' \<and> task \<noteq> ''sample'' \<longrightarrow>
      propagate sfp' multinomial task data_row counts (srv, rng') = (Inl ValueError, srv, rng'))"
  by (simp add: add_row_def remove_row_def propagate_def Let_def split: prod.splits)

theorem contract_violations_fail_unchanged_witness:
  "(0 \<in> assigned_rows ex12_added \<and>
      add_row draw_first 0 (ex12_added, ()) = (Inl AssertionError, ex12_added, ())) \<and>
   (1 \<notin> assigned_rows ex12_added \<and> remove_row 1 ex12_added = (Inl AssertionError, ex12_added)) \<and>
   (''train'' \<noteq> ''logprob'' \<and> ''train'' \<noteq> ''sample'' \<and>
      propagate draw_first multinomial_first ''train'' [[0, 0]] [1] (projr ex_server_init, ()) =
        (Inl ValueError, projr ex_server_init, ()))"
  using contract_violations_fail_unchanged [of 0 ex12_added draw_first "()" 1 "''train''"
      draw_first multinomial_first "[[0, 0]]" "[1]" "projr ex_server_init" "()"]
  by (simp add: ex12_added_assigned)

subsection \<open>Counts are stored in eight bits\<close>

lemma sint_int8_wrap: "sint (word_of_int x :: 8 word) = wrap_int8 x"
  using int_word_sint [of x, where ?'a = 8] by (simp add: wrap_int8_def)

lemma wrap_int8_id: "0 \<le> x \<Longrightarrow> x \<le> 127 \<Longrightarrow> wrap_int8 x = x"
  by (simp add: wrap_int8_def)

lemma init_data:
  assumes "TreeCatTrainer_init TS mps data0 cfg = Inr s"
  shows "data s = map (map (map word_of_int)) data0"
  using assms by (auto simp: TreeCatTrainer_init_def Let_def split: if_splits)

text \<open>
  Claim C10. \<^verbatim>\<open>__init__\<close> stores every count in eight signed bits: the stored value of a
  count \<open>x\<close> is \<open>(x + 128) mod 256 - 128\<close>. For an input whose counts all lie in
  \<open>[0, 127]\<close> the stored data are the input. For the input with the single count 128 the
  stored count is \<open>-128\<close>, and after \<^verbatim>\<open>add_row\<close> the feature tally is \<open>-128\<close>, not
  128.
\<close>

theorem int8_counts:
  "(TreeCatTrainer_init TS mps data0 cfg = Inr s \<longrightarrow>
      map (map (map sint)) (data s) = map (map (map wrap_int8)) data0 \<and>
      (counts_in_int8_range data0 \<longrightarrow> map (map (map sint)) (data s) = data0)) \<and>
   ex128_init = TreeCatTrainer_init ex_TreeStructure1 ex_schedule1 [[[128]]] ex_config1 \<and>
   map (map (map sint)) (data (projr ex128_init)) = [[[- 128]]] \<and>
   ex128_added = fst (snd (add_row draw_first 0 (projr ex128_init, ()))) \<and>
   map (map (map sint)) (feat_ss ex128_added) = [[[- 128]]]"
proof -
  have gen: "map (map (map sint)) (data s) = map (map (map wrap_int8)) data0"
    if "TreeCatTrainer_init TS mps data0 cfg = Inr s"
    using init_data [OF that] by (simp add: sint_int8_wrap comp_def)
  have same: "map (map (map wrap_int8)) data0 = data0" if "counts_in_int8_range data0"
  proof -
    have "map wrap_int8 row = row" if "list_all (\<lambda>x. 0 \<le> x \<and> x \<le> 127) row" for row
      using that by (induction row) (simp_all add: wrap_int8_id)
    then have "map (map wrap_int8) column = column"
      if "list_all (list_all (\<lambda>x. 0 \<le> x \<and> x \<le> 127)) column" for column
      using that by (induction column) simp_all
    then show ?thesis
      using that unfolding counts_in_int8_range_def by (induction data0) simp_all
  qed
  have c1: "ex128_init = TreeCatTrainer_init ex_TreeStructure1 ex_schedule1 [[[128]]] ex_config1"
    by (rule ex128_init_def)
  have c2: "map (map (map sint)) (data (projr ex128_init)) = [[[- 128]]]"
    by (simp add: ex128_init_eq)
  have c3: "ex128_added = fst (snd (add_row draw_first 0 (projr ex128_init, ())))"
    by (rule ex128_added_def)
  have c4: "map (map (map sint)) (feat_ss ex128_added) = [[[- 128]]]"
    by (simp add: ex128_added_eq)
  from gen same have "TreeCatTrainer_init TS mps data0 cfg = Inr s \<longrightarrow>
      map (map (map sint)) (data s) = map (map (map wrap_int8)) data0 \<and>
      (counts_in_int8_range data0 \<longrightarrow> map (map (map sint)) (data s) = data0)"
    by simp
  with c1 c2 c3 c4 show ?thesis by blast
qed

theorem int8_counts_witness:
  "TreeCatTrainer_init ex_TreeStructure1 ex_schedule1 [[[1, 2]]] ex_config2 = Inr (projr ex12_init) \<and>
   counts_in_int8_range [[[1, 2]]] \<and>
   map (map (map sint)) (data (projr ex12_init)) = map (map (map wrap_int8)) [[[1, 2]]] \<and>
   map (map (map sint)) (data (projr ex12_init)) = [[[1, 2]]]"
proof -
  have h: "TreeCatTrainer_init ex_TreeStructure1 ex_schedule1 [[[1, 2]]] ex_config2 = Inr (projr ex12_init)"
    by (simp add: ex12_init_def [symmetric]) (simp add: ex12_init_eq)
  have r: "counts_in_int8_range [[[1, 2]]]" by (simp add: counts_in_int8_range_def)
  from int8_counts [of ex_TreeStructure1 ex_schedule1 "[[[1, 2]]]" ex_config2 "projr ex12_init"] h r
  show ?thesis by (simp add: wrap_int8_def)
qed

subsection \<open>Trainers built by \<^verbatim>\<open>__init__\<close>\<close>

text \<open>
  The two conditions on a data row that the restoring of the statistics needs hold for every
  row of a trainer that \<^verbatim>\<open>__init__\<close> builds from rectangular columns whose counts lie in
  \<open>[0, 127]\<close>, and \<^verbatim>\<open>add_row\<close> and \<^verbatim>\<open>remove_row\<close> keep the condition on the shapes
  (they do not touch the data).
\<close>

lemma length_add_column: "length (add_column m d counts tbl) = length tbl"
  by (simp add: add_column_def)

lemma tallied_shapes_update_tensors:
  "tallied_shapes (update_tensors row_id d s) r = tallied_shapes s r"
proof -
  have "list_all2 (\<lambda>tbl column. length tbl = length (column ! r))
          (imap (\<lambda>v x. if v < length (data s)
             then add_column (map index8 (assignments s ! row_id) ! v) (word_of_int d)
                    (data s ! v ! row_id) x
             else x) (feat_ss s)) (data s) =
        list_all2 (\<lambda>tbl column. length tbl = length (column ! r)) (feat_ss s) (data s)"
    by (auto simp: list_all2_conv_all_nth length_add_column)
  then show ?thesis
    by (simp add: tallied_shapes_def update_tensors_feat update_tensors_frame)
qed

lemma init_tallied_shapes:
  assumes init: "TreeCatTrainer_init TS mps data0 cfg = Inr s"
    and rect: "rectangular data0"
    and row: "row_id < length (data0 ! 0)"
  shows "tallied_shapes s row_id"
proof -
  let ?data1 = "map (map (map (word_of_int :: int \<Rightarrow> 8 word))) data0"
  from init have ne: "data0 \<noteq> []"
    and rows: "list_all (\<lambda>column. length column = length (?data1 ! 0)) ?data1"
    and d: "data s = ?data1"
    and f: "feat_ss s = map (\<lambda>column. replicate (column_width column) (replicate (model_num_clusters cfg) 0)) ?data1"
    by (auto simp: TreeCatTrainer_init_def Let_def split: if_splits)
  from ne have pos: "0 < length data0" by simp
  have "length (feat_ss s ! v) = length (data s ! v ! row_id)" if v: "v < length data0" for v
  proof -
    from rows have "\<forall>column \<in> set ?data1. length column = length (?data1 ! 0)"
      by (simp only: list_all_iff)
    moreover from v have "?data1 ! v \<in> set ?data1" by simp
    ultimately have "length (?data1 ! v) = length (?data1 ! 0)" by blast
    with v pos have len: "length (data0 ! v) = length (data0 ! 0)" by simp
    with row have r: "row_id < length (data0 ! v)" by simp
    then obtain x xs where col: "data0 ! v = x # xs" by (cases "data0 ! v") auto
    from rect have "\<forall>column \<in> set data0. \<forall>row \<in> set column. length row = column_width column"
      by (simp only: rectangular_def list_all_iff)
    moreover from v have "data0 ! v \<in> set data0" by simp
    moreover from r have "data0 ! v ! row_id \<in> set (data0 ! v)" by simp
    ultimately have w: "length (data0 ! v ! row_id) = column_width (data0 ! v)" by blast
    have cw: "column_width (?data1 ! v) = column_width (data0 ! v)"
      using v col by (simp add: column_width_def)
    have "length (feat_ss s ! v) = column_width (?data1 ! v)"
      using v by (simp add: f)
    moreover have "length (data s ! v ! row_id) = length (data0 ! v ! row_id)"
      using v r by (simp add: d)
    ultimately show ?thesis using w cw by simp
  qed
  moreover have "length (feat_ss s) = length (data s)" by (simp add: d f)
  moreover have "length (data s) = length data0" by (simp add: d)
  ultimately show ?thesis
    unfolding tallied_shapes_def list_all2_conv_all_nth by simp
qed

lemma add_row_tallied_shapes:
  "tallied_shapes (fst (snd (add_row sfp row_id (s, rng)))) r = tallied_shapes s r"
proof (cases "row_id \<in> assigned_rows s")
  case True
  then show ?thesis by (simp add: add_row_def)
next
  case False
  from add_row_fresh [OF False, of sfp rng] obtain arow rng' where
    "add_row sfp row_id (s, rng) =
     (Inr (), update_tensors row_id 1
        (s\<lparr>assignments := (assignments s)[row_id := arow],
           assigned_rows := insert row_id (assigned_rows s)\<rparr>), rng')"
    by blast
  then show ?thesis
    by (simp add: tallied_shapes_update_tensors) (simp add: tallied_shapes_def)
qed

lemma remove_row_tallied_shapes:
  "tallied_shapes (snd (remove_row row_id s)) r = tallied_shapes s r"
  by (simp add: remove_row_def tallied_shapes_update_tensors) (simp add: tallied_shapes_def)

lemma init_invertible_counts:
  assumes init: "TreeCatTrainer_init TS mps data0 cfg = Inr s"
    and range: "counts_in_int8_range data0"
    and row: "row_id < length (data0 ! 0)"
  shows "invertible_counts s row_id"
proof -
  let ?data1 = "map (map (map (word_of_int :: int \<Rightarrow> 8 word))) data0"
  from init have ne: "data0 \<noteq> []"
    and rows: "list_all (\<lambda>column. length column = length (?data1 ! 0)) ?data1"
    and d: "data s = ?data1"
    by (auto simp: TreeCatTrainer_init_def Let_def split: if_splits)
  from ne have pos: "0 < length data0" by simp
  have cell: "x \<noteq> - 128" if v: "v < length data0" and x: "x \<in> set (data s ! v ! row_id)" for v x
  proof -
    from rows have "\<forall>column \<in> set ?data1. length column = length (?data1 ! 0)"
      by (simp only: list_all_iff)
    moreover from v have "?data1 ! v \<in> set ?data1" by simp
    ultimately have "length (?data1 ! v) = length (?data1 ! 0)" by blast
    with v pos have "length (data0 ! v) = length (data0 ! 0)" by simp
    with row have r: "row_id < length (data0 ! v)" by simp
    with v x obtain y where y: "y \<in> set (data0 ! v ! row_id)" and xy: "x = word_of_int y"
      by (auto simp: d)
    from range have "\<forall>column \<in> set data0. \<forall>row \<in> set column. \<forall>c \<in> set row. 0 \<le> c \<and> c \<le> 127"
      by (simp add: counts_in_int8_range_def list_all_iff)
    moreover from v have "data0 ! v \<in> set data0" by simp
    moreover from r have "data0 ! v ! row_id \<in> set (data0 ! v)" by simp
    ultimately have "0 \<le> y \<and> y \<le> 127" using y by blast
    then have "wrap_int8 y = y" by (simp add: wrap_int8_id)
    then have s: "sint x = y" by (simp add: xy sint_int8_wrap)
    show ?thesis
    proof
      assume "x = - 128"
      then have "sint x = - 128" by simp
      with s \<open>0 \<le> y \<and> y \<le> 127\<close> show False by simp
    qed
  qed
  have "\<forall>column \<in> set (data s). \<forall>x \<in> set (column ! row_id). x \<noteq> - 128"
  proof (intro ballI)
    fix column x
    assume c: "column \<in> set (data s)" and x: "x \<in> set (column ! row_id)"
    from c obtain v where "v < length (data s)" and "column = data s ! v"
      by (auto simp: in_set_conv_nth)
    moreover have "length (data s) = length data0" by (simp add: d)
    ultimately show "x \<noteq> - 128" using cell [of v x] x by simp
  qed
  then show ?thesis
    by (simp only: invertible_counts_def list_all_iff)
qed

subsection \<open>The posterior tables and the queries\<close>

text \<open>
  Claim C1 fails on the code. The query \<^verbatim>\<open>sample\<close> with a non-zero count for a vertex
  normalises, in place, the column of \<open>observed_latent[v]\<close> that belongs to the sampled
  cluster. On the server built from the fresh two-cluster trainer, one query
  \<^verbatim>\<open>sample([[0, 0]], [1])\<close> turns the table \<open>[[1/4, 1/4], [1/4, 1/4]]\<close> into
  \<open>[[1/2, 1/4], [1/2, 1/4]]\<close>.
\<close>

theorem sample_changes_posterior:
  "\<not> isl ex_server_init \<and>
   observed_latent (posterior (projr ex_server_init)) = [[[1/4, 1/4], [1/4, 1/4]]] \<and>
   server_sample draw_first multinomial_first [[0, 0]] [1] (projr ex_server_init, ()) =
     (Inr (sample_result [[1, 0]]), ex_server_sampled, ()) \<and>
   observed_latent (posterior ex_server_sampled) = [[[1/2, 1/4], [1/2, 1/4]]] \<and>
   posterior ex_server_sampled \<noteq> posterior (projr ex_server_init)"
proof -
  have run: "server_sample draw_first multinomial_first [[0, 0]] [1] (projr ex_server_init, ()) =
     (Inr (sample_result [[1, 0]]),
      (projr ex_server_init)\<lparr>posterior := \<lparr>observed = [[1/2, 1/2]],
         observed_latent = [[[1/2, 1/4], [1/2, 1/4]]], latent = [[1/2, 1/2]], latent_latent = []\<rparr>\<rparr>, ())"
    by (simp add: ex_server_init_eq server_sample_def propagate_def same_shapes_def
        server_upward_def server_downward_def fold_evidence_def normalize_def imap_def
        sum_axis0_def draw_first_def multinomial_first_def Let_def)
  then have s: "ex_server_sampled = (projr ex_server_init)\<lparr>posterior := \<lparr>observed = [[1/2, 1/2]],
         observed_latent = [[[1/2, 1/4], [1/2, 1/4]]], latent = [[1/2, 1/2]], latent_latent = []\<rparr>\<rparr>"
    by (simp add: ex_server_sampled_def)
  show ?thesis
    by (simp add: run s) (simp add: ex_server_init_eq)
qed

text \<open>A \<^verbatim>\<open>logprob\<close> query, in contrast, returns the server and the generator as they were.\<close>

lemma logprob_query_leaves_server:
  "snd (server_logprob sfp multinomial row (srv, rng)) = (srv, rng)"
  by (simp add: server_logprob_def propagate_def Let_def split: prod.splits list.splits)

lemma make_posterior_Inr:
  assumes "make_posterior grid ss = Inr post"
  shows "list_all (\<lambda>row. length row = column_width (vert_ss ss)) (vert_ss ss)"
    and "length (feat_ss ss) = length (vert_ss ss)"
    and "list_all (list_all (\<lambda>row. length row = column_width (vert_ss ss))) (feat_ss ss)"
    and "latent post = map (\<lambda>row. map (\<lambda>x. x / sum_list row) row)
           (map (map (\<lambda>x. 0.5 + astype_float x)) (vert_ss ss))"
    and "observed_latent post = imap (\<lambda>v tbl.
           let ol = map (map (\<lambda>x. 0.5 / real (column_width (vert_ss ss)) + astype_float x)) tbl;
               scale = vdiv (latent post ! v) (sum_axis0 (column_width (vert_ss ss)) ol)
           in map (\<lambda>row. vmul row scale) ol) (feat_ss ss)"
  using assms by (auto simp: make_posterior_def Let_def split: if_splits)

text \<open>
  Claim C7, as amended. For every snapshot that \<^verbatim>\<open>make_posterior\<close> accepts and every
  vertex \<open>v\<close> whose normalising sums are not zero (the row sum of \<open>0.5 + vert_ss[v]\<close>
  and, for every cluster, the column sum of \<open>0.5 / M + feat_ss[v]\<close>), the sum of
  \<open>observed_latent[v]\<close> over the category axis is \<open>latent[v, :]\<close>, and \<open>latent[v, :]\<close> sums
  to 1 (exact arithmetic).
\<close>

theorem posterior_marginals_agree:
  assumes post: "make_posterior grid ss = Inr post"
    and v: "v < length (vert_ss ss)"
    and nz: "normalisers_nonzero ss v"
  shows "sum_axis0 (column_width (vert_ss ss)) (observed_latent post ! v) = latent post ! v \<and>
    sum_list (latent post ! v) = 1"
proof -
  let ?M = "column_width (vert_ss ss)"
  let ?row = "map (\<lambda>x. 0.5 + astype_float x) (vert_ss ss ! v)"
  let ?ol = "map (map (\<lambda>x. 0.5 / real ?M + astype_float x)) (feat_ss ss ! v)"
  let ?scale = "vdiv (latent post ! v) (sum_axis0 ?M ?ol)"
  note p = make_posterior_Inr [OF post]
  from p(1) v have lenv: "length (vert_ss ss ! v) = ?M" by (simp add: list_all_length)
  from p(2) v have vf: "v < length (feat_ss ss)" by simp
  from p(3) vf have rows: "\<And>c. c < length (feat_ss ss ! v) \<Longrightarrow> length (feat_ss ss ! v ! c) = ?M"
    by (simp add: list_all_length)
  from v have lat: "latent post ! v = map (\<lambda>x. x / sum_list ?row) ?row"
    by (simp add: p(4))
  from nz have tot: "sum_list ?row \<noteq> 0" by (simp add: normalisers_nonzero_def vertex_total_def)
  have one: "sum_list (latent post ! v) = 1"
    using tot by (simp only: lat sum_list_divide) simp
  have lenlat: "length (latent post ! v) = ?M" by (simp add: lat lenv)
  have ol: "observed_latent post ! v = map (\<lambda>row. vmul row ?scale) ?ol"
    using vf by (simp add: p(5) Let_def)
  have rows_ol: "length row = ?M" if "row \<in> set ?ol" for row
  proof -
    from that obtain r where r: "r \<in> set (feat_ss ss ! v)" and row: "row = map (\<lambda>x. 0.5 / real ?M + astype_float x) r"
      by auto
    from r obtain c where "c < length (feat_ss ss ! v)" "r = feat_ss ss ! v ! c"
      by (auto simp: in_set_conv_nth)
    with rows row show ?thesis by simp
  qed
  have lensc: "length ?scale = ?M"
    by (simp add: vdiv_def lenlat sum_axis0_def)
  have "sum_axis0 ?M (observed_latent post ! v) ! m = latent post ! v ! m" if m: "m < ?M" for m
  proof -
    have "sum_axis0 ?M ?ol ! m = sum_list (map (\<lambda>row. row ! m) ?ol)"
      using m by (simp add: sum_axis0_def)
    also have "\<dots> = sum_list (map (\<lambda>r. 0.5 / real ?M + astype_float (r ! m)) (feat_ss ss ! v))"
      unfolding map_map comp_def
    proof (rule arg_cong [where f = sum_list], rule map_cong [OF refl])
      fix r
      assume "r \<in> set (feat_ss ss ! v)"
      then obtain c where "c < length (feat_ss ss ! v)" "r = feat_ss ss ! v ! c"
        by (auto simp: in_set_conv_nth)
      with rows m have "m < length r" by simp
      then show "map (\<lambda>x. 0.5 / real ?M + astype_float x) r ! m = 0.5 / real ?M + astype_float (r ! m)"
        by simp
    qed
    finally have col: "sum_axis0 ?M ?ol ! m = feature_total ss v m"
      by (simp add: feature_total_def)
    from nz m have nzm: "feature_total ss v m \<noteq> 0"
      by (simp add: normalisers_nonzero_def list_all_iff)
    have "?scale ! m = latent post ! v ! m / sum_axis0 ?M ?ol ! m"
      using m lenlat unfolding vdiv_def by (simp add: sum_axis0_def)
    then have sc: "?scale ! m = latent post ! v ! m / feature_total ss v m"
      by (simp only: col)
    have "sum_axis0 ?M (observed_latent post ! v) ! m =
        sum_list (map (\<lambda>row. vmul row ?scale ! m) ?ol)"
      using m unfolding ol sum_axis0_def by (simp add: comp_def)
    also have "\<dots> = sum_list (map (\<lambda>row. row ! m * ?scale ! m) ?ol)"
    proof (rule arg_cong [where f = sum_list], rule map_cong [OF refl])
      fix row
      assume "row \<in> set ?ol"
      from rows_ol [OF this] lensc m show "vmul row ?scale ! m = row ! m * ?scale ! m"
        unfolding vmul_def by simp
    qed
    also have "\<dots> = sum_list (map (\<lambda>row. row ! m) ?ol) * ?scale ! m"
      by (rule sum_list_mult_right)
    also have "sum_list (map (\<lambda>row. row ! m) ?ol) = sum_axis0 ?M ?ol ! m"
      using m by (simp add: sum_axis0_def)
    finally have "sum_axis0 ?M (observed_latent post ! v) ! m = sum_axis0 ?M ?ol ! m * ?scale ! m" .
    also have "\<dots> = feature_total ss v m * (latent post ! v ! m / feature_total ss v m)"
      by (simp only: col sc)
    also have "\<dots> = latent post ! v ! m" using nzm by simp
    finally show ?thesis .
  qed
  then have "sum_axis0 ?M (observed_latent post ! v) = latent post ! v"
    by (intro nth_equalityI) (simp_all add: lenlat sum_axis0_def)
  with one show ?thesis by simp
qed

theorem posterior_marginals_agree_witness:
  "make_posterior [] (get_suffstats exA_final) = Inr (projr (make_posterior [] (get_suffstats exA_final))) \<and>
   0 < length (vert_ss (get_suffstats exA_final)) \<and>
   normalisers_nonzero (get_suffstats exA_final) 0 \<and>
   sum_axis0 (column_width (vert_ss (get_suffstats exA_final)))
     (observed_latent (projr (make_posterior [] (get_suffstats exA_final))) ! 0) =
     latent (projr (make_posterior [] (get_suffstats exA_final))) ! 0 \<and>
   sum_list (latent (projr (make_posterior [] (get_suffstats exA_final))) ! 0) = 1"
proof -
  have ss: "get_suffstats exA_final = \<lparr>feat_ss = [[[2], [2]]], vert_ss = [[2]], edge_ss = []\<rparr>"
    by (simp add: get_suffstats_def exA_final_eq)
  have h1: "make_posterior [] (get_suffstats exA_final) = Inr (projr (make_posterior [] (get_suffstats exA_final)))"
    by (simp add: ss make_posterior_def column_width_def Let_def)
  have h2: "0 < length (vert_ss (get_suffstats exA_final))" by (simp add: ss)
  have h3: "normalisers_nonzero (get_suffstats exA_final) 0"
    by (simp add: ss normalisers_nonzero_def vertex_total_def feature_total_def column_width_def
        astype_float_def)
  from posterior_marginals_agree [OF h1 h2 h3] h1 h2 h3 show ?thesis by blast
qed

text \<open>
  The sums are positive, hence not zero, when no count of the vertex is negative and its
  feature has at least one category.
\<close>

lemma tallies_normalisers_nonzero:
  assumes post: "make_posterior grid ss = Inr post"
    and v: "v < length (vert_ss ss)"
    and vert: "list_all (\<lambda>x. 0 \<le> sint x) (vert_ss ss ! v)"
    and feat: "list_all (list_all (\<lambda>x. 0 \<le> sint x)) (feat_ss ss ! v)"
    and cats: "feat_ss ss ! v \<noteq> []"
  shows "normalisers_nonzero ss v"
proof -
  let ?M = "column_width (vert_ss ss)"
  note p = make_posterior_Inr [OF post]
  from post have M: "0 < ?M"
    by (auto simp: make_posterior_def Let_def split: if_splits)
  from p(1) v have lenv: "length (vert_ss ss ! v) = ?M" by (simp add: list_all_length)
  from p(2) v have vf: "v < length (feat_ss ss)" by simp
  with p(3) have rows: "\<And>row. row \<in> set (feat_ss ss ! v) \<Longrightarrow> length row = ?M"
    by (auto simp: list_all_iff)
  have "0 < vertex_total ss v"
    unfolding vertex_total_def
  proof (rule sum_list_pos_nonempty)
    from lenv M show "vert_ss ss ! v \<noteq> []" by auto
    fix x assume "x \<in> set (vert_ss ss ! v)"
    with vert have "0 \<le> sint x" by (simp add: list_all_iff)
    then have "0 \<le> real_of_int (sint x)" by (simp only: of_int_0_le_iff)
    then show "0 < 0.5 + astype_float x" unfolding astype_float_def by linarith
  qed
  moreover have "0 < feature_total ss v m" if m: "m < ?M" for m
    unfolding feature_total_def
  proof (rule sum_list_pos_nonempty [OF cats])
    fix row assume r: "row \<in> set (feat_ss ss ! v)"
    with rows m have "m < length row" by simp
    then have "row ! m \<in> set row" by simp
    with feat r have "0 \<le> sint (row ! m)" by (auto simp: list_all_iff)
    then have "0 \<le> real_of_int (sint (row ! m))" by (simp only: of_int_0_le_iff)
    moreover from M have "0 < 0.5 / real ?M" by simp
    ultimately show "0 < 0.5 / real ?M + astype_float (row ! m)"
      unfolding astype_float_def by linarith
  qed
  ultimately show ?thesis
    by (fastforce simp: normalisers_nonzero_def list_all_iff)
qed

text \<open>
  Claim C7, as stated, fails for a feature without categories. The snapshot passes every
  assertion; \<open>observed_latent[0]\<close> has no rows, so its sum over the category axis is 0,
  while \<open>latent[0, :]\<close> is 1.
\<close>

theorem posterior_marginals_counterexample:
  "make_posterior [] ex_empty_feature =
     Inr \<lparr>observed = [[]], observed_latent = [[]], latent = [[1]], latent_latent = []\<rparr> \<and>
   sum_axis0 1 (observed_latent (projr (make_posterior [] ex_empty_feature)) ! 0) = [0] \<and>
   latent (projr (make_posterior [] ex_empty_feature)) ! 0 = [1] \<and>
   sum_axis0 1 (observed_latent (projr (make_posterior [] ex_empty_feature)) ! 0) \<noteq>
     latent (projr (make_posterior [] ex_empty_feature)) ! 0"
proof -
  have "make_posterior [] ex_empty_feature =
     Inr \<lparr>observed = [[]], observed_latent = [[]], latent = [[1]], latent_latent = []\<rparr>"
    by (simp add: make_posterior_def ex_empty_feature_def column_width_def imap_def
        astype_float_def sum_axis1_def Let_def)
  then show ?thesis by (simp add: sum_axis0_def)
qed

subsection \<open>The edge weights of \<^verbatim>\<open>sample_tree\<close>\<close>

text \<open>
  Claim C2 fails on the code. The loop of \<^verbatim>\<open>sample_tree\<close> runs over the \<open>V - 1\<close>
  columns of \<^verbatim>\<open>tree_grid\<close>, not over the \<open>K\<close> columns of \<^verbatim>\<open>complete_grid\<close>. On the
  chain of three vertices, \<open>K = 3\<close> and the tree has two edges: two weights are computed,
  the third entry of \<^verbatim>\<open>edge_logits\<close> is the 0 it was initialised with.
\<close>

theorem sample_tree_skips_candidate_edges:
  "\<not> isl ex3_init \<and>
   VEKM (projr ex3_init) = (3, 2, 3, 1) \<and>
   length (complete_grid (tree (projr ex3_init))) = 3 \<and>
   length (tree_grid (tree (projr ex3_init))) = 2 \<and>
   sample_tree_edge_logits (projr ex3_init) = Inr [- gammaln (1/2), - gammaln (1/2), 0]"
  by (simp add: ex3_init_eq sample_tree_edge_logits_def ex_tree3_def vertex_logits_def
      logprob_dc_def count_pairs_def replicate_3)

text \<open>
  In general an entry whose index is not the id of a tree edge is never written.
\<close>

lemma edge_logits_loop_untouched:
  assumes "edge_logits_loop rows M prior vl grid logits = Inr out"
    and "k \<notin> fst ` set grid"
  shows "out ! k = logits ! k \<and> length out = length logits"
  using assms
proof (induction grid arbitrary: logits)
  case Nil
  then show ?case by simp
next
  case (Cons edge grid)
  obtain e v1 v2 where edge: "edge = (e, v1, v2)" by (cases edge)
  from Cons.prems(2) edge have ne: "k \<noteq> e" and rest: "k \<notin> fst ` set grid" by auto
  from Cons.prems(1) edge obtain counts where
    "edge_logits_loop rows M prior vl grid
       (logits[e := logprob_dc (map (\<lambda>x. real_of_int x + prior) (concat counts)) - vl ! v1 - vl ! v2]) = Inr out"
    by (auto split: sum.splits if_splits)
  from Cons.IH [OF this rest] ne show ?case by simp
qed

subsection \<open>The training-side log-probability\<close>

lemma exA_sum: "server_logprob_sum ex_schedule1 exA_final = 2 * ln (3/8)"
  by (simp add: server_logprob_sum_def exA_final_eq get_suffstats_def ex_final_server
      server_row_logprob_def trainer_row_def server_logprob_def propagate_def same_shapes_def
      server_upward_def fold_evidence_def fold_unit_def vmul_def vdiv_def sum_axis0_def
      upt_rec numeral_2_eq_2 Let_def)

lemma exB_sum: "server_logprob_sum ex_schedule1 exB_final = 2 * ln (1/8)"
  by (simp add: server_logprob_sum_def exB_final_eq get_suffstats_def ex_final_server
      server_row_logprob_def trainer_row_def server_logprob_def propagate_def same_shapes_def
      server_upward_def fold_evidence_def fold_unit_def vmul_def vdiv_def sum_axis0_def
      upt_rec numeral_2_eq_2 Let_def)

lemma exA_logprob: "logprob exA_final = Inr (gammaln (5/2) + (gammaln (5/2) + gammaln (5/2) - gammaln 5))"
  by (simp add: logprob_def exA_final_eq vertex_logits_def logprob_dc_def sum_axis0_def ex_tree1_def Let_def)

lemma exB_logprob: "logprob exB_final = Inr (gammaln (5/2) + (gammaln (5/2) + gammaln (5/2) - gammaln 5))"
  by (simp add: logprob_def exB_final_eq vertex_logits_def logprob_dc_def sum_axis0_def ex_tree1_def Let_def)

text \<open>
  Claim C3, as stated, fails. The two data sets \<open>[2, 0], [0, 2]\<close> and \<open>[1, 1], [1, 1]\<close>
  lead to the same final statistics, hence to the same training-side \<^verbatim>\<open>logprob()\<close>, but
  the per-row values of the server add up to \<open>2 ln (3/8)\<close> for the first and to
  \<open>2 ln (1/8)\<close> for the second: the equality cannot hold for both.
\<close>

theorem logprob_not_sum_of_rows:
  "logprob exA_final = logprob exB_final \<and> \<not> isl (logprob exA_final) \<and>
   server_logprob_sum ex_schedule1 exA_final = 2 * ln (3/8) \<and>
   server_logprob_sum ex_schedule1 exB_final = 2 * ln (1/8) \<and>
   \<not> (projr (logprob exA_final) = server_logprob_sum ex_schedule1 exA_final \<and>
      projr (logprob exB_final) = server_logprob_sum ex_schedule1 exB_final)"
proof -
  have "ln (3/8 :: real) \<noteq> ln (1/8)" by simp
  then have "2 * ln (3/8 :: real) \<noteq> 2 * ln (1/8)" by simp
  then show ?thesis
    by (auto simp: exA_logprob exB_logprob exA_sum exB_sum)
qed

text \<open>
  What the closed form unfolds to: a fold that adds is a sum, and \<^verbatim>\<open>logprob_dc\<close> of a
  row, of a table and of the column sums of a table are sums over their indices.
\<close>

lemma fold_add_triples:
  "fold (\<lambda>(e, v1, v2) lp. lp + h e v1 v2) xs (a :: real) = a + (\<Sum>(e, v1, v2)\<leftarrow>xs. h e v1 v2)"
  by (induction xs arbitrary: a) auto

lemma fold_add_upt:
  "fold (\<lambda>v lp. lp + g v) [0..<V] (a :: real) = a + (\<Sum>v<V. g v)"
proof -
  have "fold (\<lambda>v lp. lp + g v) xs a = a + sum_list (map g xs)" for xs
    by (induction xs arbitrary: a) auto
  then show ?thesis
    by (simp add: interv_sum_list_conv_sum_set_nat atLeast0LessThan)
qed

lemma sum_list_map_nth:
  "sum_list (map g xs) = (\<Sum>i<length xs. (g (xs ! i) :: real))"
proof -
  have "sum_list (map g xs) = (\<Sum>i = 0..<length (map g xs). map g xs ! i)"
    by (rule sum_list_sum_nth)
  also have "\<dots> = (\<Sum>i<length xs. g (xs ! i))"
    by (intro sum.cong) (auto simp: atLeast0LessThan)
  finally show ?thesis .
qed

lemma sum_list_map_concat:
  "sum_list (map g (concat xss)) = (\<Sum>i<length xss. \<Sum>j<length (xss ! i). (g (xss ! i ! j) :: real))"
proof -
  have "sum_list (map g (concat xss)) = sum_list (map (\<lambda>xs. sum_list (map g xs)) xss)"
    by (induction xss) simp_all
  also have "\<dots> = (\<Sum>i<length xss. sum_list (map g (xss ! i)))"
    by (rule sum_list_map_nth)
  also have "\<dots> = (\<Sum>i<length xss. \<Sum>j<length (xss ! i). g (xss ! i ! j))"
    by (simp add: sum_list_map_nth)
  finally show ?thesis .
qed

lemma logprob_dc_nth:
  "logprob_dc (map f row) = (\<Sum>m<length row. gammaln (f (row ! m)))"
  by (simp add: logprob_dc_def sum_list_map_nth o_def)

lemma logprob_dc_table:
  assumes "\<And>c. c < length tbl \<Longrightarrow> length (tbl ! c) = M"
  shows "logprob_dc (concat (map (map f) tbl)) = (\<Sum>c<length tbl. \<Sum>m<M. gammaln (f (tbl ! c ! m)))"
proof -
  have "logprob_dc (concat (map (map f) tbl)) = sum_list (map (\<lambda>x. gammaln (f x)) (concat tbl))"
    by (simp add: logprob_dc_def map_concat o_def)
  also have "\<dots> = (\<Sum>c<length tbl. \<Sum>m<length (tbl ! c). gammaln (f (tbl ! c ! m)))"
    by (rule sum_list_map_concat)
  also have "\<dots> = (\<Sum>c<length tbl. \<Sum>m<M. gammaln (f (tbl ! c ! m)))"
    using assms by (intro sum.cong) auto
  finally show ?thesis .
qed

lemma logprob_dc_totals:
  assumes "\<And>c. c < length tbl \<Longrightarrow> length (tbl ! c) = M"
  shows "logprob_dc (sum_axis0 M (map (map f) tbl)) = (\<Sum>m<M. gammaln (\<Sum>c<length tbl. f (tbl ! c ! m)))"
proof -
  have "logprob_dc (sum_axis0 M (map (map f) tbl)) =
      sum_list (map (\<lambda>m. gammaln (sum_list (map (\<lambda>row. map f row ! m) tbl))) [0..<M])"
    by (simp add: logprob_dc_def sum_axis0_def o_def)
  also have "\<dots> = (\<Sum>m<M. gammaln (sum_list (map (\<lambda>row. map f row ! m) tbl)))"
    by (simp add: interv_sum_list_conv_sum_set_nat atLeast0LessThan)
  also have "\<dots> = (\<Sum>m<M. gammaln (\<Sum>c<length tbl. f (tbl ! c ! m)))"
  proof (intro sum.cong refl arg_cong [where f = gammaln])
    fix m
    assume "m \<in> {..<M}"
    then have m: "m < M" by simp
    have "sum_list (map (\<lambda>row. map f row ! m) tbl) = (\<Sum>c<length tbl. map f (tbl ! c) ! m)"
      by (rule sum_list_map_nth)
    also have "\<dots> = (\<Sum>c<length tbl. f (tbl ! c ! m))"
      using assms m by (intro sum.cong) auto
    finally show "sum_list (map (\<lambda>row. map f row ! m) tbl) = (\<Sum>c<length tbl. f (tbl ! c ! m))" .
  qed
  finally show ?thesis .
qed

text \<open>
  Claim C3, as amended. For every trainer state whose statistics have the shapes that
  \<^verbatim>\<open>__init__\<close> gives them, with the Jeffreys priors and a tree grid within the arrays,
  the training-side \<^verbatim>\<open>logprob()\<close> raises \<^verbatim>\<open>AssertionError\<close> unless all rows are
  assigned, and otherwise returns the closed form over the sufficient statistics: the sum
  over the vertices \<open>v\<close> of \<open>D v\<close>, plus the sum over the edges \<open>(e, v1, v2)\<close> of the tree
  of \<open>D\<^sub>e e - D v1 - D v2\<close>, plus the sum over the vertices of \<open>F v - T v\<close>, where
  \<open>D v\<close> is the sum over the clusters \<open>m\<close> of \<open>gammaln (vert_ss[v, m] + 1/2)\<close>, \<open>D\<^sub>e e\<close> the
  sum over the pairs of clusters of \<open>gammaln (edge_ss[e, i, j] + 1 / (2 M))\<close>, \<open>F v\<close> the
  sum over the categories \<open>c\<close> and clusters \<open>m\<close> of \<open>gammaln (feat_ss[v][c, m] + 1 / (2 M))\<close>,
  and \<open>T v\<close> the sum over the clusters of \<open>gammaln\<close> of the column sum of
  \<open>feat_ss[v][c, m] + 1 / (2 M)\<close>. The value is a function of the statistics, the tree grid
  and the dimensions; the rows themselves are not read. (It is not the sum of the
  server's per-row values: see above.)
\<close>

theorem logprob_closed_form:
  assumes sh: "statistics_shaped s"
  shows "logprob s =
    (if card (assigned_rows s) = length (assignments s) then Inr (closed_form_logprob s)
     else Inl AssertionError)"
proof (cases "card (assigned_rows s) = length (assignments s)")
  case False
  then show ?thesis by (simp add: logprob_def)
next
  case True
  obtain V E K M where vekm: "VEKM s = (V, E, K, M)" by (cases "VEKM s") auto
  from sh vekm have lv: "length (vert_ss s) = V"
    and rv: "\<And>v. v < V \<Longrightarrow> length (vert_ss s ! v) = M"
    and le: "length (edge_ss s) = E"
    and re: "\<And>e i. e < E \<Longrightarrow> length (edge_ss s ! e) = M"
      "\<And>e i. e < E \<Longrightarrow> i < M \<Longrightarrow> length (edge_ss s ! e ! i) = M"
    and lf: "length (feat_ss s) = V"
    and rf: "\<And>v c. v < V \<Longrightarrow> c < length (feat_ss s ! v) \<Longrightarrow> length (feat_ss s ! v ! c) = M"
    and grid: "\<And>e v1 v2. (e, v1, v2) \<in> set (tree_grid (tree s)) \<Longrightarrow> e < E \<and> v1 < V \<and> v2 < V"
    and pr: "vert_prior s = 1 / 2" "edge_prior s = 1 / (2 * real M)" "feat_prior s = 1 / (2 * real M)"
    by (auto simp: statistics_shaped_def list_all_length in_set_conv_nth split: prod.splits)
  have vl: "vertex_logits s ! v = dc_vertex s M v" if "v < V" for v
    using that lv rv [OF that]
    by (simp add: vertex_logits_def dc_vertex_def logprob_dc_nth pr del: of_int_sint)
  have vsum: "sum_list (vertex_logits s) = (\<Sum>v<V. dc_vertex s M v)"
  proof -
    have "sum_list (vertex_logits s) = (\<Sum>v<length (vertex_logits s). vertex_logits s ! v)"
      using sum_list_map_nth [of "\<lambda>x. x" "vertex_logits s"] by simp
    also have "\<dots> = (\<Sum>v<V. dc_vertex s M v)"
    proof -
      have "length (vertex_logits s) = V" by (simp add: vertex_logits_def lv)
      then show ?thesis by (intro sum.cong) (auto simp: vl)
    qed
    finally show ?thesis .
  qed
  have ed: "logprob_dc (map (\<lambda>x. real_of_int (sint x) + edge_prior s) (concat (edge_ss s ! e))) = dc_edge s M e"
    if "e < E" for e
  proof -
    have "map (\<lambda>x. real_of_int (sint x) + edge_prior s) (concat (edge_ss s ! e)) =
        concat (map (map (\<lambda>x. real_of_int (sint x) + edge_prior s)) (edge_ss s ! e))"
      by (simp add: map_concat)
    moreover have "\<And>i. i < length (edge_ss s ! e) \<Longrightarrow> length (edge_ss s ! e ! i) = M"
      using re that by simp
    ultimately show ?thesis
      using re(1) [OF that] by (simp add: logprob_dc_table dc_edge_def pr del: of_int_sint)
  qed
  have esum: "(\<Sum>(e, v1, v2)\<leftarrow>tree_grid (tree s).
        logprob_dc (map (\<lambda>x. real_of_int (sint x) + edge_prior s) (concat (edge_ss s ! e)))
          - vertex_logits s ! v1 - vertex_logits s ! v2) =
      (\<Sum>(e, v1, v2)\<leftarrow>tree_grid (tree s). dc_edge s M e - dc_vertex s M v1 - dc_vertex s M v2)"
  proof (intro arg_cong [where f = sum_list] map_cong refl)
    fix x
    assume mem: "x \<in> set (tree_grid (tree s))"
    obtain e v1 v2 where x: "x = (e, v1, v2)" by (cases x)
    from grid mem have "e < E" "v1 < V" "v2 < V" by (auto simp: x)
    then show "(case x of (e, v1, v2) \<Rightarrow>
          logprob_dc (map (\<lambda>x. real_of_int (sint x) + edge_prior s) (concat (edge_ss s ! e)))
            - vertex_logits s ! v1 - vertex_logits s ! v2) =
        (case x of (e, v1, v2) \<Rightarrow> dc_edge s M e - dc_vertex s M v1 - dc_vertex s M v2)"
      by (simp only: x prod.case ed vl)
  qed
  have ft: "logprob_dc (concat (map (map (\<lambda>x. real_of_int (sint x) + feat_prior s)) (feat_ss s ! v)))
        - logprob_dc (sum_axis0 M (map (map (\<lambda>x. real_of_int (sint x) + feat_prior s)) (feat_ss s ! v))) =
      dc_feature s M v - dc_feature_totals s M v" if "v < V" for v
    using rf [OF that]
    by (simp add: logprob_dc_table logprob_dc_totals dc_feature_def dc_feature_totals_def pr del: of_int_sint)
  have fsum: "(\<Sum>v<V. logprob_dc (concat (map (map (\<lambda>x. real_of_int (sint x) + feat_prior s)) (feat_ss s ! v)))
        - logprob_dc (sum_axis0 M (map (map (\<lambda>x. real_of_int (sint x) + feat_prior s)) (feat_ss s ! v)))) =
      (\<Sum>v<V. dc_feature s M v - dc_feature_totals s M v)"
    by (intro sum.cong refl) (simp add: ft del: of_int_sint)
  from True show ?thesis
    by (simp add: logprob_def vekm Let_def fold_add_triples fold_add_upt vsum esum fsum
        closed_form_logprob_def del: of_int_sint)
qed

theorem logprob_closed_form_witness:
  "statistics_shaped exA_final \<and>
   logprob exA_final =
     (if card (assigned_rows exA_final) = length (assignments exA_final)
      then Inr (closed_form_logprob exA_final) else Inl AssertionError) \<and>
   card (assigned_rows exA_final) = length (assignments exA_final) \<and>
   closed_form_logprob exA_final = gammaln (5/2) + (gammaln (5/2) + gammaln (5/2) - gammaln 5)"
proof -
  have sh: "statistics_shaped exA_final"
    by (simp add: statistics_shaped_def exA_final_eq ex_tree1_def)
  have all: "card (assigned_rows exA_final) = length (assignments exA_final)"
    by (simp add: exA_final_eq)
  have val: "closed_form_logprob exA_final = gammaln (5/2) + (gammaln (5/2) + gammaln (5/2) - gammaln 5)"
    by (simp add: closed_form_logprob_def dc_vertex_def dc_feature_def dc_feature_totals_def
        exA_final_eq ex_tree1_def lessThan_Suc numeral_2_eq_2)
  from logprob_closed_form [OF sh] sh all val show ?thesis by (intro conjI) assumption+
qed

text \<open>
  The condition on the shapes holds for the trainer that \<^verbatim>\<open>__init__\<close> builds, when
  \<^verbatim>\<open>TreeStructure\<close> gives a tree with one vertex per feature whose grid lies within it,
  and \<^verbatim>\<open>add_row\<close> and \<^verbatim>\<open>remove_row\<close> keep it.
\<close>

lemma statistics_shaped_update_tensors:
  "statistics_shaped (update_tensors row_id d s) = statistics_shaped s"
proof -
  have v: "length (vert_ss (update_tensors row_id d s)) = length (vert_ss s)"
    "list_all (\<lambda>row. length row = M) (vert_ss (update_tensors row_id d s)) =
     list_all (\<lambda>row. length row = M) (vert_ss s)" for M
    by (simp_all add: update_tensors_def Let_def add_at2_def list_all_length)
  have e: "length (edge_ss (update_tensors row_id d s)) = length (edge_ss s)"
    "list_all (\<lambda>tbl. length tbl = M \<and> list_all (\<lambda>row. length row = M) tbl) (edge_ss (update_tensors row_id d s)) =
     list_all (\<lambda>tbl. length tbl = M \<and> list_all (\<lambda>row. length row = M) tbl) (edge_ss s)" for M
    by (auto simp: update_tensors_def Let_def add_at3_def list_all_length)
  have f: "length (feat_ss (update_tensors row_id d s)) = length (feat_ss s)"
    "list_all (list_all (\<lambda>row. length row = M)) (feat_ss (update_tensors row_id d s)) =
     list_all (list_all (\<lambda>row. length row = M)) (feat_ss s)" for M
    by (auto simp: update_tensors_feat add_column_def list_all_length)
  have r: "VEKM (update_tensors row_id d s) = VEKM s"
    "vert_prior (update_tensors row_id d s) = vert_prior s"
    "edge_prior (update_tensors row_id d s) = edge_prior s"
    "feat_prior (update_tensors row_id d s) = feat_prior s"
    by (simp_all add: update_tensors_def Let_def)
  show ?thesis
    by (simp add: statistics_shaped_def v e f r update_tensors_frame split: prod.splits)
qed

lemma add_row_statistics_shaped:
  "statistics_shaped (fst (snd (add_row sfp row_id (s, rng)))) = statistics_shaped s"
proof (cases "row_id \<in> assigned_rows s")
  case True
  then show ?thesis by (simp add: add_row_def)
next
  case False
  from add_row_fresh [OF False, of sfp rng] obtain arow rng' where
    "add_row sfp row_id (s, rng) =
     (Inr (), update_tensors row_id 1
        (s\<lparr>assignments := (assignments s)[row_id := arow],
           assigned_rows := insert row_id (assigned_rows s)\<rparr>), rng')"
    by blast
  then show ?thesis
    by (simp add: statistics_shaped_update_tensors) (simp add: statistics_shaped_def)
qed

lemma remove_row_statistics_shaped:
  "statistics_shaped (snd (remove_row row_id s)) = statistics_shaped s"
  by (simp add: remove_row_def statistics_shaped_update_tensors) (simp add: statistics_shaped_def)

lemma init_statistics_shaped:
  assumes init: "TreeCatTrainer_init TS mps data0 cfg = Inr s"
    and V: "num_vertices (TS (length data0)) = length data0"
    and grid: "list_all (\<lambda>(e, v1, v2). e < length data0 - 1 \<and> v1 < length data0 \<and> v2 < length data0)
       (tree_grid (TS (length data0)))"
  shows "statistics_shaped s"
proof -
  let ?data1 = "map (map (map (word_of_int :: int \<Rightarrow> 8 word))) data0"
  let ?M = "model_num_clusters cfg"
  let ?V = "length data0"
  let ?t = "TS ?V"
  from init have s: "s = \<lparr>feat_ss = map (\<lambda>column. replicate (column_width column) (replicate ?M 0)) ?data1,
      vert_ss = replicate (num_vertices ?t) (replicate ?M 0),
      edge_ss = replicate (num_vertices ?t - 1) (replicate ?M (replicate ?M 0)),
      data = ?data1, config = cfg, assigned_rows = {},
      assignments = replicate (length (?data1 ! 0)) (replicate (length ?data1) 0),
      tree = ?t, schedule = mps (tree_grid ?t),
      VEKM = (num_vertices ?t, num_vertices ?t - 1, num_vertices ?t * (num_vertices ?t - 1) div 2, ?M),
      vert_prior = 0.5, edge_prior = 0.5 / real ?M, feat_prior = 0.5 / real ?M\<rparr>"
    by (simp add: TreeCatTrainer_init_def Let_def split: if_splits)
  have f: "feat_ss s = map (\<lambda>column. replicate (column_width column) (replicate ?M 0)) ?data1"
    and v: "vert_ss s = replicate ?V (replicate ?M 0)"
    and e: "edge_ss s = replicate (?V - 1) (replicate ?M (replicate ?M 0))"
    and t: "tree s = TS ?V"
    and d: "VEKM s = (?V, ?V - 1, ?V * (?V - 1) div 2, ?M)"
    and p: "vert_prior s = 1 / 2" "edge_prior s = 1 / (2 * real ?M)" "feat_prior s = 1 / (2 * real ?M)"
    by (simp_all add: s V)
  have "list_all (\<lambda>row. length row = ?M) (vert_ss s)"
    by (simp add: v list_all_iff)
  moreover have "list_all (\<lambda>tbl. length tbl = ?M \<and> list_all (\<lambda>row. length row = ?M) tbl) (edge_ss s)"
    by (simp add: e list_all_iff)
  moreover have "list_all (list_all (\<lambda>row. length row = ?M)) (feat_ss s)"
    by (simp add: f list_all_iff)
  moreover have "length (vert_ss s) = ?V" "length (edge_ss s) = ?V - 1" "length (feat_ss s) = ?V"
    by (simp_all add: v e f)
  moreover from grid have "list_all (\<lambda>(e, v1, v2). e < ?V - 1 \<and> v1 < ?V \<and> v2 < ?V) (tree_grid (tree s))"
    by (simp only: t)
  ultimately show ?thesis
    unfolding statistics_shaped_def d prod.case using p by blast
qed


end
